theory Spec2Isabelle
  imports Complex_Main
begin

section \<open>Track records and the object store\<close>

text \<open>
  The sources are \<^verbatim>\<open>track_cache.js\<close> (the track cache and, in the same file, the
  audio buffer manager) and \<^verbatim>\<open>mixer_channel.js\<close>. Both work on shared, mutable
  \<^verbatim>\<open>Track\<close> objects: the cache stores references to them, the loader and the
  eviction write their status, and a channel reads the buffer of the track it hosts.
  Objects are therefore kept in an explicit store: a reference is a number, and the
  store maps every reference to the current value of the object.
\<close>

datatype load_status = NOT_LOADED | LOADING | LOAD_SUCCESS | LOAD_FAILED

type_synonym audio_buffer = "real list"

record track =
  guid :: string
  loadStatus :: load_status
  audioBuffer :: "audio_buffer option"
  bpm :: real
  title :: string
  audioSourceKey :: string

type_synonym ref = nat
type_synonym heap = "ref \<Rightarrow> track"

text \<open>
  Modelled from the spec: the class \<^verbatim>\<open>Track\<close> (model/track.js) is not among the
  sources. The spec's Track Record has the four status transitions \<^verbatim>\<open>markLoading\<close>,
  \<^verbatim>\<open>markLoadSuccess(buffer)\<close>, \<^verbatim>\<open>markLoadFailed\<close> and \<^verbatim>\<open>markNotLoaded\<close>, of
  which only the last releases the buffer; the source calls them
  \<^verbatim>\<open>setStatusLoading\<close>, \<^verbatim>\<open>setAudioBuffer\<close> (whose call site says that it
  also sets the status to load success), \<^verbatim>\<open>setStatusLoadFailed\<close> and
  \<^verbatim>\<open>setStatusNotLoaded(shouldUnloadBuffer)\<close>.
\<close>

definition isStatusLoading :: "track \<Rightarrow> bool" where
  "isStatusLoading t = (loadStatus t = LOADING)"

definition isStatusLoadSuccess :: "track \<Rightarrow> bool" where
  "isStatusLoadSuccess t = (loadStatus t = LOAD_SUCCESS)"

definition setStatusLoading :: "track \<Rightarrow> track" where
  "setStatusLoading t = t\<lparr>loadStatus := LOADING\<rparr>"

definition setStatusLoadFailed :: "track \<Rightarrow> track" where
  "setStatusLoadFailed t = t\<lparr>loadStatus := LOAD_FAILED\<rparr>"

definition setStatusNotLoaded :: "bool \<Rightarrow> track \<Rightarrow> track" where
  "setStatusNotLoaded shouldUnloadBuffer t =
     t\<lparr>loadStatus := NOT_LOADED,
       audioBuffer := (if shouldUnloadBuffer then None else audioBuffer t)\<rparr>"

definition setAudioBuffer :: "audio_buffer \<Rightarrow> track \<Rightarrow> track" where
  "setAudioBuffer b t = t\<lparr>audioBuffer := Some b, loadStatus := LOAD_SUCCESS\<rparr>"

section \<open>Exceptions and results\<close>

text \<open>
  A JavaScript call either returns a value or throws; in both cases the mutations it
  made so far stay. A result therefore carries the state in both cases.
\<close>

datatype error =
    TrackCacheOutOfMemory
  | TrackNotLoaded
  | IllegalParam
  | TypeError
  | InvalidStateError

datatype ('a, 's) result = Return 'a 's | Throw error 's

fun state_of :: "('a, 's) result \<Rightarrow> 's" where
  "state_of (Return v s) = s"
| "state_of (Throw e s) = s"

section \<open>The track cache (track\_cache.js)\<close>

text \<open>
  \<^verbatim>\<open>_cache\<close> is a JavaScript object used as a dictionary from a track's guid to the
  track object. It is modelled as an association list in the order in which
  \<^verbatim>\<open>for (let trackGuid in _cache)\<close> visits the keys, which for keys of the shape the
  source documents (\<^verbatim>\<open>'com.soundcloud~1253'\<close>) is the order of insertion. Keys that
  JavaScript treats specially (array indices, which are visited first, and the
  property names every object inherits) are outside the model; none of the theorems
  below depends on the order of the entries.
\<close>

type_synonym cache = "(string \<times> ref) list"

type_synonym cache_state = "heap \<times> cache"

definition MAX_TRACKS :: nat where
  "MAX_TRACKS = 6"

definition contains :: "cache \<Rightarrow> string \<Rightarrow> bool" where
  "contains c trackGuid = (map_of c trackGuid \<noteq> None)"

definition getTrack :: "cache \<Rightarrow> string \<Rightarrow> ref option" where
  "getTrack c trackGuid = (if contains c trackGuid then map_of c trackGuid else None)"

text \<open>\<^verbatim>\<open>_getNumTracksLoadedOrLoading\<close>: one pass over the cache.\<close>

fun getNumTracksLoadedOrLoading :: "heap \<Rightarrow> cache \<Rightarrow> nat" where
  "getNumTracksLoadedOrLoading h [] = 0"
| "getNumTracksLoadedOrLoading h ((trackGuid, r) # c) =
     (if isStatusLoadSuccess (h r) \<or> isStatusLoading (h r) then 1 else 0)
       + getNumTracksLoadedOrLoading h c"

text \<open>
  The eviction loop of \<^verbatim>\<open>_checkAndMakeSpace\<close>: the first cached track that is
  loaded and whose key is not among the guids bound to channels is set to not loaded,
  with its buffer released, and the loop stops. The result says whether room was made.
\<close>

fun evictLoop :: "string list \<Rightarrow> heap \<Rightarrow> cache \<Rightarrow> bool \<times> heap" where
  "evictLoop trackGuidsInChannels h [] = (False, h)"
| "evictLoop trackGuidsInChannels h ((trackGuid, r) # c) =
     (if isStatusLoadSuccess (h r) \<and> trackGuid \<notin> set trackGuidsInChannels
      then (True, h(r := setStatusNotLoaded True (h r)))
      else evictLoop trackGuidsInChannels h c)"

text \<open>
  \<^verbatim>\<open>_checkAndMakeSpace\<close>. The list \<open>trackGuidsInChannels\<close> is what
  \<^verbatim>\<open>AudioGraphStore.getTrackGuids()\<close> returns at the call (the store is not among the
  sources). A guid is a string here, so the test \<^verbatim>\<open>typeof(targetTrackGuid) === 'string'\<close>
  holds.
\<close>

definition checkAndMakeSpace ::
  "string list \<Rightarrow> string \<Rightarrow> cache_state \<Rightarrow> bool \<times> heap" where
  "checkAndMakeSpace trackGuidsInChannels targetTrackGuid s =
     (case s of (h, c) \<Rightarrow>
        if getNumTracksLoadedOrLoading h c \<ge> MAX_TRACKS then
          (if (case map_of c targetTrackGuid of
                 None \<Rightarrow> False
               | Some r \<Rightarrow> isStatusLoadSuccess (h r) \<or> isStatusLoading (h r))
           then (True, h)
           else evictLoop trackGuidsInChannels h c)
        else (True, h))"

text \<open>
  \<^verbatim>\<open>addTrackAsLoading(track)\<close>: \<open>r\<close> is the reference of the track object passed.
\<close>

definition addTrackAsLoading ::
  "string list \<Rightarrow> ref \<Rightarrow> cache_state \<Rightarrow> (bool, cache_state) result" where
  "addTrackAsLoading trackGuidsInChannels r s =
     (case s of (h, c) \<Rightarrow>
        (case checkAndMakeSpace trackGuidsInChannels (guid (h r)) (h, c) of
           (False, h1) \<Rightarrow> Throw TrackCacheOutOfMemory (h1, c)
         | (True, h1) \<Rightarrow>
             let h2 = h1(r := setStatusLoading (h1 r));
                 c2 = (if \<not> contains c (guid (h2 r)) then c @ [(guid (h2 r), r)] else c)
             in Return True (h2, c2)))"

section \<open>The audio buffer manager (track\_cache.js, second part)\<close>

text \<open>
  \<^verbatim>\<open>pLoadSingleTrack\<close> returns a promise. The remote fetch (\<^verbatim>\<open>s3.getObject\<close>) and
  the decoder (\<^verbatim>\<open>audioContext.decodeAudioData\<close>) are external: they are parameters,
  \<open>None\<close> standing for the error callback. The model runs the callbacks right after
  the request, with no other call in between, and returns how the promise is settled
  together with the state.
\<close>

type_synonym bytes = "nat list"

datatype reject_reason =
    AlreadyLoading string
  | CacheFullMessage
  | TrackRequestError
  | DecodingError

datatype settled = Resolved ref | Rejected reject_reason

definition pLoadSingleTrack ::
  "(string \<Rightarrow> bytes option) \<Rightarrow> (bytes \<Rightarrow> audio_buffer option) \<Rightarrow> string list \<Rightarrow> ref
     \<Rightarrow> cache_state \<Rightarrow> settled \<times> cache_state" where
  "pLoadSingleTrack getObject decodeAudioData trackGuidsInChannels r s =
     (case s of (h, c) \<Rightarrow>
        let cachedTrack = getTrack c (guid (h r));
            rejectedLoading =
              (case cachedTrack of None \<Rightarrow> False | Some ct \<Rightarrow> isStatusLoading (h ct));
            resolvedLoaded =
              (case cachedTrack of None \<Rightarrow> False | Some ct \<Rightarrow> isStatusLoadSuccess (h ct));
            shouldGetTrack = (\<not> rejectedLoading \<and> \<not> resolvedLoaded)
        in
          if shouldGetTrack then
            (case addTrackAsLoading trackGuidsInChannels r s of
               Throw e s1 \<Rightarrow> (Rejected CacheFullMessage, s1)
             | Return v (h1, c1) \<Rightarrow>
                 (case getObject (audioSourceKey (h1 r)) of
                    None \<Rightarrow>
                      (Rejected TrackRequestError, (h1(r := setStatusLoadFailed (h1 r)), c1))
                  | Some body \<Rightarrow>
                      (case decodeAudioData body of
                         Some buffer \<Rightarrow>
                           (Resolved r, (h1(r := setAudioBuffer buffer (h1 r)), c1))
                       | None \<Rightarrow>
                           (Rejected DecodingError,
                            (h1(r := setStatusLoadFailed (h1 r)), c1)))))
          else if rejectedLoading then (Rejected (AlreadyLoading (guid (h r))), s)
          else (Resolved r, s))"

section \<open>Sequences of calls on the cache\<close>

text \<open>
  The cache starts empty (\<^verbatim>\<open>var _cache = {}\<close>). A client changes it by calling
  \<^verbatim>\<open>addTrackAsLoading\<close> directly or through \<^verbatim>\<open>pLoadSingleTrack\<close>, whose callbacks
  are the only code in the sources that makes a track loaded. \<open>call_state\<close> is the
  state a call leaves, whether it returns or throws.
\<close>

datatype cache_call =
    AddTrackAsLoading "string list" ref
  | LoadSingleTrack "string \<Rightarrow> bytes option" "bytes \<Rightarrow> audio_buffer option" "string list" ref

fun call_state :: "cache_call \<Rightarrow> cache_state \<Rightarrow> cache_state" where
  "call_state (AddTrackAsLoading pins r) s = state_of (addTrackAsLoading pins r s)"
| "call_state (LoadSingleTrack getObject decodeAudioData pins r) s =
     snd (pLoadSingleTrack getObject decodeAudioData pins r s)"

fun run_calls :: "cache_call list \<Rightarrow> cache_state \<Rightarrow> cache_state" where
  "run_calls [] s = s"
| "run_calls (x # xs) s = run_calls xs (call_state x s)"

text \<open>
  Every entry of a cache built by these calls is filed under the guid of its track, and
  no guid is filed twice.
\<close>

definition cache_wf :: "cache_state \<Rightarrow> bool" where
  "cache_wf s = (case s of (h, c) \<Rightarrow>
     distinct (map fst c) \<and> list_all (\<lambda>(trackGuid, r). guid (h r) = trackGuid) c)"

section \<open>The mixer channel (mixer\_channel.js)\<close>

subsection \<open>Times, actions and audio nodes\<close>

text \<open>
  Times are JavaScript numbers, in milliseconds on the clock of the audio context
  unless the name says seconds; they are real numbers here, so rounding is not
  modelled. A time that a caller may leave out, or that is unset, is a
  \<open>real option\<close>. Every function below that reads the clock takes the reading
  \<^verbatim>\<open>TimeUtil.secToMS(audioContext.currentTime)\<close> as its parameter \<open>now\<close>: the clock
  does not advance within one call.
\<close>

type_synonym jstime = "real option"

text \<open>
  Modelled from the spec: \<^verbatim>\<open>TimeUtil.isBadTime\<close> and the constants
  \<^verbatim>\<open>COMMON_CONST.INVALID_TIME_VAL\<close> and \<^verbatim>\<open>COMMON_CONST.INVALID_VAL\<close> are not among
  the sources. The spec calls a scheduled time either an absolute time or unset, and a
  bad time a parameter that \<^emph>\<open>is not a valid absolute time\<close>. \<open>None\<close> is the unset or
  absent value (\<^verbatim>\<open>undefined\<close>, \<^verbatim>\<open>null\<close>, the invalid constants), and it is the bad
  time; every number is a good one, the sentinel \<^verbatim>\<open>AT_TIME_NOW\<close> included, which the
  source tests for after \<^verbatim>\<open>isBadTime\<close>.
\<close>

definition isBadTime :: "jstime \<Rightarrow> bool" where
  "isBadTime t = (t = None)"

text \<open>The idiom \<^verbatim>\<open>if (TimeUtil.isBadTime(x)) { x = 0; }\<close>.\<close>

definition zeroIfBadTime :: "jstime \<Rightarrow> real" where
  "zeroIfBadTime t = (case t of None \<Rightarrow> 0 | Some x \<Rightarrow> (if isBadTime t then 0 else x))"

text \<open>
  Modelled from the spec: \<^verbatim>\<open>TimeUtil.msToSec\<close>, \<^verbatim>\<open>NumberUtil.isPositive\<close> and
  \<^verbatim>\<open>TypeUtil.defaultVal\<close> are not among the sources; they are read by their names.
\<close>

definition msToSec :: "real \<Rightarrow> real" where
  "msToSec ms = ms / 1000"

definition isPositive :: "real \<Rightarrow> bool" where
  "isPositive x = (0 < x)"

definition defaultVal :: "'a option \<Rightarrow> 'a \<Rightarrow> 'a" where
  "defaultVal v d = (case v of None \<Rightarrow> d | Some x \<Rightarrow> x)"

definition AT_TIME_NOW :: real where
  "AT_TIME_NOW = - 1"

datatype play_state =
    STOPPED
  | STOPPED_AND_PLAY_SCHEDULED
  | PLAYING_AND_STOP_SCHEDULED
  | PLAYING

text \<open>
  Modelled from the spec: the class \<^verbatim>\<open>TrackAction\<close>, its factory and the collection
  \<^verbatim>\<open>TrackActionsCollection\<close> are not among the sources. An action is the record of
  what its getters return; a copy of an action is the same value; the collection is the
  list of its actions, and \<^verbatim>\<open>addActionWithTimeMSAbs(copy, t)\<close> appends the copy with
  its time set to \<open>t\<close>.
\<close>

datatype action_type = PLAY | STOP | PAUSE | PITCH | GAIN_FADE

datatype action_target = SOURCE | GAIN

record track_action =
  getActionType :: action_type
  getActionTarget :: action_target
  getActionTrackGuid :: string
  getActionTimeMSAbs :: real
  getActionOffsetMS :: jstime
  getPitchValueApplied :: real
  getEndVal :: real
  getFadeNumBeats :: real

definition addActionWithTimeMSAbs ::
  "track_action list \<Rightarrow> track_action \<Rightarrow> real \<Rightarrow> track_action list" where
  "addActionWithTimeMSAbs actions actionCopy t = actions @ [actionCopy\<lparr>getActionTimeMSAbs := t\<rparr>]"

text \<open>
  The nodes of the audio engine are records of the calls made on them: the ramps asked
  of a gain node, the start, the stop and the playback rate changes asked of a source
  node, in the order of the calls and with the engine's times in seconds. Every node
  the audio context creates gets the next number as its identity. The engine refuses a
  second \<^verbatim>\<open>start\<close> on a source node with a DOMException, which the source catches;
  no other refusal of the engine is modelled.
\<close>

record gain_node =
  gn_id :: nat
  gn_connected :: bool
  gn_value :: real
  gn_ramps :: "(real \<times> real) list"

record source_node =
  sn_id :: nat
  sn_buffer :: audio_buffer
  sn_output :: "nat option"
  sn_start :: "(real \<times> real) option"
  sn_stop :: "real option"
  sn_onended :: bool
  sn_rate_events :: "(real \<times> real) list"

record mixer_channel =
  track :: ref
  nodesCreated :: nat
  gainNode :: "gain_node option"
  sourceNode :: "source_node option"
  preBendPitchValue :: "real option"
  isBent :: bool
  actionsAddedCollection :: "track_action list"
  playState :: play_state
  startScheduledTimeMS :: jstime
  stopScheduledTimeMS :: jstime
  startedAtOffsetMS :: jstime
  stoppedAtOffsetMS :: jstime

text \<open>
  A JavaScript truth value that may be \<^verbatim>\<open>undefined\<close>: \<open>None\<close> is \<^verbatim>\<open>undefined\<close>,
  which is falsy.
\<close>

type_synonym jsbool = "bool option"

definition truthy :: "jsbool \<Rightarrow> bool" where
  "truthy v = (v = Some True)"

subsection \<open>Node creation\<close>

definition resetPlayAttributes :: "mixer_channel \<Rightarrow> mixer_channel" where
  "resetPlayAttributes mc =
     mc\<lparr>playState := STOPPED,
        startScheduledTimeMS := None,
        stopScheduledTimeMS := None,
        startedAtOffsetMS := None,
        stoppedAtOffsetMS := None\<rparr>"

definition createGainNode :: "mixer_channel \<Rightarrow> mixer_channel" where
  "createGainNode mc =
     mc\<lparr>gainNode := Some \<lparr>gn_id = nodesCreated mc, gn_connected = True, gn_value = 1,
                           gn_ramps = []\<rparr>,
        nodesCreated := nodesCreated mc + 1\<rparr>"

text \<open>
  \<^verbatim>\<open>_sourceNodeRecreate(mc, deleteOldNode, addBackOldActions)\<close> with
  \<open>addBackOldActions = false\<close>, which is what every call in the sources passes (the
  constructor, \<^verbatim>\<open>_ensureSourceNodePresent\<close>, \<^verbatim>\<open>clearActions\<close> and
  \<^verbatim>\<open>_processPlaybackEnded\<close>); the branch that replays the old actions is not reached
  from them. The old node, once disconnected, is referenced no more.
\<close>

definition sourceNodeRecreate :: "heap \<Rightarrow> mixer_channel \<Rightarrow> bool \<Rightarrow> bool \<times> mixer_channel" where
  "sourceNodeRecreate h mc deleteOldNode =
     (case gainNode mc of
        None \<Rightarrow> (False, mc)
      | Some gn \<Rightarrow>
          if sourceNode mc \<noteq> None \<and> \<not> deleteOldNode then (True, mc)
          else
            (case audioBuffer (h (track mc)) of
               Some trackBuffer \<Rightarrow>
                 (True,
                  mc\<lparr>sourceNode := Some \<lparr>sn_id = nodesCreated mc, sn_buffer = trackBuffer,
                          sn_output = Some (gn_id gn), sn_start = None, sn_stop = None,
                          sn_onended = False, sn_rate_events = []\<rparr>,
                     nodesCreated := nodesCreated mc + 1,
                     actionsAddedCollection := []\<rparr>)
             | None \<Rightarrow> (False, mc\<lparr>sourceNode := None\<rparr>)))"

definition ensureSourceNodePresent :: "heap \<Rightarrow> mixer_channel \<Rightarrow> bool \<times> mixer_channel" where
  "ensureSourceNodePresent h mc = sourceNodeRecreate h mc False"

text \<open>
  The constructor: \<open>t\<close> is the track hosted, \<open>n\<close> the number of nodes the audio
  context has created so far.
\<close>

definition newMixerChannel :: "heap \<Rightarrow> ref \<Rightarrow> nat \<Rightarrow> mixer_channel" where
  "newMixerChannel h t n =
     (let mc0 = \<lparr>track = t, nodesCreated = n, gainNode = None, sourceNode = None,
                  preBendPitchValue = None, isBent = False, actionsAddedCollection = [],
                  playState = STOPPED, startScheduledTimeMS = None,
                  stopScheduledTimeMS = None, startedAtOffsetMS = None,
                  stoppedAtOffsetMS = None\<rparr>;
          mc1 = createGainNode mc0;
          mc2 = snd (sourceNodeRecreate h mc1 False);
          mc3 = mc2\<lparr>preBendPitchValue := None, isBent := False, actionsAddedCollection := []\<rparr>
      in resetPlayAttributes mc3)"

subsection \<open>The play state\<close>

definition filterAtTimeNow :: "real \<Rightarrow> real \<Rightarrow> real" where
  "filterAtTimeNow now timeMS = (if timeMS = AT_TIME_NOW then now else timeMS)"

text \<open>
  \<^verbatim>\<open>currentTimeMS >= t\<close> for a scheduled time \<open>t\<close> of the channel. An unset time is
  reached by no clock reading (the fields are set whenever the state that reads them
  is entered).
\<close>

definition timeReached :: "real \<Rightarrow> jstime \<Rightarrow> bool" where
  "timeReached now t = (case t of None \<Rightarrow> False | Some x \<Rightarrow> now \<ge> x)"

text \<open>
  \<^verbatim>\<open>_getPlayState\<close> tests \<^verbatim>\<open>mc._playState\<close> in its first branch and
  \<^verbatim>\<open>mc._playStates\<close> in its second. No code of the class assigns a property
  \<^verbatim>\<open>_playStates\<close>, so reading it gives \<^verbatim>\<open>undefined\<close>.
\<close>

definition playStates :: "mixer_channel \<Rightarrow> play_state option" where
  "playStates mc = None"

definition getPlayState :: "real \<Rightarrow> mixer_channel \<Rightarrow> play_state \<times> mixer_channel" where
  "getPlayState now mc =
     (let mc1 =
        (if playState mc = STOPPED_AND_PLAY_SCHEDULED then
           (if timeReached now (startScheduledTimeMS mc) then mc\<lparr>playState := PLAYING\<rparr>
            else mc)
         else if playStates mc = Some PLAYING_AND_STOP_SCHEDULED then
           (if timeReached now (stopScheduledTimeMS mc) then mc\<lparr>playState := STOPPED\<rparr>
            else mc)
         else mc)
      in (playState mc1, mc1))"

text \<open>
  \<^verbatim>\<open>getTrackCurrentOffsetMS\<close>. \<open>None\<close> is the invalid value; arithmetic with an unset
  field gives \<open>None\<close> too.
\<close>

definition getTrackCurrentOffsetMS :: "real \<Rightarrow> mixer_channel \<Rightarrow> jstime \<times> mixer_channel" where
  "getTrackCurrentOffsetMS now mc =
     (case getPlayState now mc of
        (currentPlayState, mc1) \<Rightarrow>
          (case currentPlayState of
             STOPPED \<Rightarrow> (stoppedAtOffsetMS mc1, mc1)
           | STOPPED_AND_PLAY_SCHEDULED \<Rightarrow> (stoppedAtOffsetMS mc1, mc1)
           | PLAYING \<Rightarrow>
               (case (startedAtOffsetMS mc1, startScheduledTimeMS mc1) of
                  (Some off, Some st) \<Rightarrow> (Some (off + (now - st)), mc1)
                | _ \<Rightarrow> (None, mc1))
           | PLAYING_AND_STOP_SCHEDULED \<Rightarrow>
               (case (startedAtOffsetMS mc1, startScheduledTimeMS mc1) of
                  (Some off, Some st) \<Rightarrow> (Some (off + (now - st)), mc1)
                | _ \<Rightarrow> (None, mc1))))"

subsection \<open>The actions\<close>

text \<open>
  The private functions \<^verbatim>\<open>_actionPlay\<close>, \<^verbatim>\<open>_actionStop\<close>, \<^verbatim>\<open>_actionPause\<close>,
  \<^verbatim>\<open>_actionPitch\<close> and \<^verbatim>\<open>_actionGainFade\<close> with their helpers. Calls of
  \<^verbatim>\<open>LogHandler\<close> and \<^verbatim>\<open>console.log\<close> are left out: nothing reads the log. A method
  call on a node that is \<^verbatim>\<open>null\<close> throws a TypeError.
\<close>

definition actionPlayHelper ::
  "mixer_channel \<Rightarrow> real \<Rightarrow> real \<Rightarrow> (unit, mixer_channel) result" where
  "actionPlayHelper mc atTimeMS offsetMS =
     (case sourceNode mc of
        None \<Rightarrow> Throw TypeError mc
      | Some sn \<Rightarrow>
          let started =
                (if sn_start sn = None
                 then sn\<lparr>sn_start := Some (msToSec atTimeMS, msToSec offsetMS)\<rparr>
                 else sn)
          in Return ()
               (mc\<lparr>sourceNode := Some (started\<lparr>sn_onended := True\<rparr>),
                   startScheduledTimeMS := Some atTimeMS,
                   playState := STOPPED_AND_PLAY_SCHEDULED,
                   startedAtOffsetMS := Some offsetMS\<rparr>))"

definition actionPlay ::
  "real \<Rightarrow> mixer_channel \<Rightarrow> real \<Rightarrow> jstime \<Rightarrow> (jsbool, mixer_channel) result" where
  "actionPlay now mc atTimeMS offsetMS =
     (if isBadTime (Some atTimeMS) then Return (Some False) mc
      else
        let offset = zeroIfBadTime offsetMS;
            currentTimeMS = now;
            atTime = filterAtTimeNow now atTimeMS
        in
          (case getPlayState now mc of
             (currentPlayState, mc1) \<Rightarrow>
               (case currentPlayState of
                  PLAYING \<Rightarrow>
                    (if atTime = currentTimeMS then Return (Some False) mc1
                     else Return (Some False) mc1)
                | PLAYING_AND_STOP_SCHEDULED \<Rightarrow>
                    (if atTime = currentTimeMS then Return (Some False) mc1
                     else Return (Some False) mc1)
                | STOPPED \<Rightarrow>
                    (case actionPlayHelper mc1 atTime offset of
                       Throw e mc2 \<Rightarrow> Throw e mc2
                     | Return u mc2 \<Rightarrow> Return (Some True) mc2)
                | STOPPED_AND_PLAY_SCHEDULED \<Rightarrow>
                    (if atTime = currentTimeMS then Return (Some False) mc1
                     else Return (Some False) mc1))))"

definition actionPause :: "mixer_channel \<Rightarrow> real \<Rightarrow> (jsbool, mixer_channel) result" where
  "actionPause mc atTimeMS = Return (Some False) mc"

definition actionPitch ::
  "real \<Rightarrow> mixer_channel \<Rightarrow> real \<Rightarrow> real \<Rightarrow> (jsbool, mixer_channel) result" where
  "actionPitch now mc atTimeMS pitchValue =
     (if isBadTime (Some atTimeMS) then Return (Some False) mc
      else
        let atTime = filterAtTimeNow now atTimeMS in
          (case sourceNode mc of
             None \<Rightarrow> Throw TypeError mc
           | Some sn \<Rightarrow>
               Return (Some True)
                 (mc\<lparr>sourceNode :=
                       Some (sn\<lparr>sn_rate_events :=
                                   sn_rate_events sn @ [(pitchValue, msToSec atTime)]\<rparr>),
                     isBent := False\<rparr>)))"

definition actionStopHelper ::
  "real \<Rightarrow> mixer_channel \<Rightarrow> real \<Rightarrow> (unit, mixer_channel) result" where
  "actionStopHelper now mc atTimeMS =
     (case sourceNode mc of
        None \<Rightarrow> Throw TypeError mc
      | Some sn \<Rightarrow>
          let mc1 = mc\<lparr>sourceNode := Some (sn\<lparr>sn_stop := Some (msToSec atTimeMS)\<rparr>),
                       stopScheduledTimeMS := Some atTimeMS,
                       playState := PLAYING_AND_STOP_SCHEDULED\<rparr>;
              currentTimeMS = now
          in
            (case getTrackCurrentOffsetMS now mc1 of
               (currentOffset, mc2) \<Rightarrow>
                 Return ()
                   (mc2\<lparr>stoppedAtOffsetMS :=
                          map_option (\<lambda>off. off + atTimeMS - currentTimeMS) currentOffset\<rparr>)))"

definition actionStop ::
  "real \<Rightarrow> mixer_channel \<Rightarrow> real \<Rightarrow> (jsbool, mixer_channel) result" where
  "actionStop now mc atTimeMS =
     (if isBadTime (Some atTimeMS) then Return (Some False) mc
      else
        let atTime = filterAtTimeNow now atTimeMS in
          (case getPlayState now mc of
             (currentPlayState, mc1) \<Rightarrow>
               (case currentPlayState of
                  PLAYING \<Rightarrow>
                    (case actionStopHelper now mc1 atTime of
                       Throw e mc2 \<Rightarrow> Throw e mc2
                     | Return u mc2 \<Rightarrow> Return (Some True) mc2)
                | PLAYING_AND_STOP_SCHEDULED \<Rightarrow> Return (Some False) mc1
                | STOPPED \<Rightarrow> Return (Some False) mc1
                | STOPPED_AND_PLAY_SCHEDULED \<Rightarrow> Return (Some False) mc1)))"

text \<open>
  \<^verbatim>\<open>_actionGainFade\<close> has no \<^verbatim>\<open>return\<close> statement: when it does not throw, its
  value is \<^verbatim>\<open>undefined\<close>.
\<close>

definition actionGainFade ::
  "mixer_channel \<Rightarrow> real \<Rightarrow> real \<Rightarrow> real \<Rightarrow> real \<Rightarrow> (jsbool, mixer_channel) result" where
  "actionGainFade mc atTimeMS endGainVal fadeNumBeats trackBpm =
     (if \<not> isPositive trackBpm then Throw IllegalParam mc
      else
        let fadeTimeSec = (fadeNumBeats / trackBpm) * 60;
            atTimeSec = atTimeMS / 1000;
            initialGainVal = 1 - endGainVal
        in
          (case gainNode mc of
             None \<Rightarrow> Throw TypeError mc
           | Some gn \<Rightarrow>
               Return None
                 (mc\<lparr>gainNode :=
                       Some (gn\<lparr>gn_ramps :=
                                   (gn_ramps gn @ [(initialGainVal, atTimeSec)])
                                     @ [(endGainVal, atTimeSec + fadeTimeSec)]\<rparr>)\<rparr>)))"

subsection \<open>addActionMc, addActions, clearActions\<close>

definition addActionMc ::
  "heap \<Rightarrow> real \<Rightarrow> mixer_channel \<Rightarrow> track_action \<Rightarrow> jstime \<Rightarrow> jstime \<Rightarrow> jstime
     \<Rightarrow> (jsbool, mixer_channel) result" where
  "addActionMc h now mc action baseTimeOffsetMS mixSetOffsetTimeMS minTimeMSAbs =
     (case ensureSourceNodePresent h mc of
        (False, mc0) \<Rightarrow> Throw TrackNotLoaded mc0
      | (True, mc0) \<Rightarrow>
          let baseTimeOffset = zeroIfBadTime baseTimeOffsetMS;
              mixSetOffsetTime = zeroIfBadTime mixSetOffsetTimeMS;
              minTime = zeroIfBadTime minTimeMSAbs
          in
            if guid (h (track mc0)) = getActionTrackGuid action then
              if filterAtTimeNow now (getActionTimeMSAbs action) < minTime
              then Return (Some False) mc0
              else
                let actionTime =
                      filterAtTimeNow now (getActionTimeMSAbs action)
                        + baseTimeOffset - mixSetOffsetTime
                in
                  (case
                     (case getActionType action of
                        PLAY \<Rightarrow> actionPlay now mc0 actionTime (getActionOffsetMS action)
                      | STOP \<Rightarrow> actionStop now mc0 actionTime
                      | PAUSE \<Rightarrow> actionPause mc0 actionTime
                      | PITCH \<Rightarrow> actionPitch now mc0 actionTime (getPitchValueApplied action)
                      | GAIN_FADE \<Rightarrow>
                          actionGainFade mc0 actionTime (getEndVal action) (getFadeNumBeats action)
                            (bpm (h (track mc0))))
                   of
                     Throw e mc1 \<Rightarrow> Throw e mc1
                   | Return actionAdded mc1 \<Rightarrow>
                       if truthy actionAdded \<and> getActionTarget action = SOURCE
                       then Return actionAdded
                              (mc1\<lparr>actionsAddedCollection :=
                                     addActionWithTimeMSAbs (actionsAddedCollection mc1)
                                       action actionTime\<rparr>)
                       else Return actionAdded mc1)
            else Return (Some False) mc0)"

text \<open>
  \<^verbatim>\<open>addActions\<close>: the loop runs over the whole list, and its body is
  \<^verbatim>\<open>allAdded = allAdded && this.addActionMc(...)\<close>. The operator \<^verbatim>\<open>&&\<close> evaluates its
  right operand only when the left one is truthy, and its value is then that of the
  right operand; otherwise it is the left operand.
\<close>

fun addActionsLoop ::
  "heap \<Rightarrow> real \<Rightarrow> jstime \<Rightarrow> jstime \<Rightarrow> jstime \<Rightarrow> jsbool \<Rightarrow> mixer_channel
     \<Rightarrow> track_action list \<Rightarrow> (jsbool, mixer_channel) result" where
  "addActionsLoop h now b m mn allAdded mc [] = Return allAdded mc"
| "addActionsLoop h now b m mn allAdded mc (action # actionList) =
     (if truthy allAdded then
        (case addActionMc h now mc action b m mn of
           Throw e mc1 \<Rightarrow> Throw e mc1
         | Return added mc1 \<Rightarrow> addActionsLoop h now b m mn added mc1 actionList)
      else addActionsLoop h now b m mn allAdded mc actionList)"

definition addActions ::
  "heap \<Rightarrow> real \<Rightarrow> mixer_channel \<Rightarrow> track_action list \<Rightarrow> jstime \<Rightarrow> jstime \<Rightarrow> jstime
     \<Rightarrow> (jsbool, mixer_channel) result" where
  "addActions h now mc actionList baseTimeOffsetMS mixSetOffsetTimeMS minTimeMSAbs =
     addActionsLoop h now baseTimeOffsetMS mixSetOffsetTimeMS minTimeMSAbs (Some True) mc
       actionList"

definition clearActions ::
  "heap \<Rightarrow> real \<Rightarrow> mixer_channel \<Rightarrow> bool option \<Rightarrow> bool option
     \<Rightarrow> (unit, mixer_channel) result" where
  "clearActions h now mc forceSourceNodeReset forceGainNodeReset =
     (let forceSource = defaultVal forceSourceNodeReset False;
          forceGain = defaultVal forceGainNodeReset False;
          mc1 = mc\<lparr>actionsAddedCollection := []\<rparr>
      in
        (case
           (if forceGain then
              (case gainNode mc1 of
                 None \<Rightarrow> Throw TypeError mc1
               | Some oldGain \<Rightarrow>
                   let mc2 = createGainNode mc1 in
                     (case (sourceNode mc2, gainNode mc2) of
                        (Some sn, Some gn) \<Rightarrow>
                          Return () (mc2\<lparr>sourceNode := Some (sn\<lparr>sn_output := Some (gn_id gn)\<rparr>)\<rparr>)
                      | _ \<Rightarrow> Throw TypeError mc2))
            else Return () mc1)
         of
           Throw e mc3 \<Rightarrow> Throw e mc3
         | Return u mc3 \<Rightarrow>
             (case getPlayState now mc3 of
                (currentPlayState, mc4) \<Rightarrow>
                  if currentPlayState = STOPPED
                     \<or> currentPlayState = STOPPED_AND_PLAY_SCHEDULED
                     \<or> forceSource
                  then
                    Return ()
                      (resetPlayAttributes
                         (snd (sourceNodeRecreate h (mc4\<lparr>playState := STOPPED\<rparr>) True)))
                  else Return () mc4)))"

text \<open>\<^verbatim>\<open>_processPlaybackEnded\<close>, the handler of the engine's ended event.\<close>

definition processPlaybackEnded :: "heap \<Rightarrow> mixer_channel \<Rightarrow> mixer_channel" where
  "processPlaybackEnded h mc = snd (sourceNodeRecreate h (mc\<lparr>playState := STOPPED\<rparr>) True)"

section \<open>A channel next to the cache\<close>

text \<open>
  A channel reads the buffer of its track from the store that the cache and the loader
  write, so what a channel can meet depends on what they can do to its track. The
  state here is the store, the cache and one channel. The cache is changed by the
  calls of its own section; the list that \<^verbatim>\<open>AudioGraphStore.getTrackGuids()\<close>
  returns to them holds the guids of the tracks bound to channels, that is the guid of
  the track this channel hosts, next to the guids bound to the other channels, which
  the call names. The channel is changed by its methods, by the engine's ended event
  and by the queries of its play state (which record a start that has come).
\<close>

type_synonym sys_state = "heap \<times> cache \<times> mixer_channel"

datatype sys_call =
    CacheCall cache_call
  | CallAddActionMc real track_action jstime jstime jstime
  | CallAddActions real "track_action list" jstime jstime jstime
  | CallClearActions real "bool option" "bool option"
  | PlaybackEnded
  | QueryPlayState real
  | QueryTrackCurrentOffsetMS real

fun with_pin :: "string \<Rightarrow> cache_call \<Rightarrow> cache_call" where
  "with_pin g (AddTrackAsLoading others r) = AddTrackAsLoading (g # others) r"
| "with_pin g (LoadSingleTrack getObject decodeAudioData others r) =
     LoadSingleTrack getObject decodeAudioData (g # others) r"

fun sys_step :: "sys_call \<Rightarrow> sys_state \<Rightarrow> sys_state" where
  "sys_step (CacheCall x) (h, c, mc) =
     (case call_state (with_pin (guid (h (track mc))) x) (h, c) of (h', c') \<Rightarrow> (h', c', mc))"
| "sys_step (CallAddActionMc now action b m mn) (h, c, mc) =
     (h, c, state_of (addActionMc h now mc action b m mn))"
| "sys_step (CallAddActions now actionList b m mn) (h, c, mc) =
     (h, c, state_of (addActions h now mc actionList b m mn))"
| "sys_step (CallClearActions now forceSourceNodeReset forceGainNodeReset) (h, c, mc) =
     (h, c, state_of (clearActions h now mc forceSourceNodeReset forceGainNodeReset))"
| "sys_step PlaybackEnded (h, c, mc) = (h, c, processPlaybackEnded h mc)"
| "sys_step (QueryPlayState now) (h, c, mc) = (h, c, snd (getPlayState now mc))"
| "sys_step (QueryTrackCurrentOffsetMS now) (h, c, mc) =
     (h, c, snd (getTrackCurrentOffsetMS now mc))"

fun sys_run :: "sys_call list \<Rightarrow> sys_state \<Rightarrow> sys_state" where
  "sys_run [] s = s"
| "sys_run (x # xs) s = sys_run xs (sys_step x s)"

text \<open>
  The channel is constructed for the track \<open>t\<close> after the cache, empty at first, has
  seen the calls \<open>before\<close>; \<open>n\<close> is the number of nodes the audio context has
  created by then.
\<close>

definition sys_init :: "cache_call list \<Rightarrow> heap \<Rightarrow> ref \<Rightarrow> nat \<Rightarrow> sys_state" where
  "sys_init before h0 t n =
     (case run_calls before (h0, []) of (h, c) \<Rightarrow> (h, c, newMixerChannel h t n))"

section \<open>What the specification says of addActions\<close>

text \<open>
  The specification's wording of \<^verbatim>\<open>addActions\<close>, to compare the source with:
  \<^verbatim>\<open>addAction\<close> is applied to each element of the list in order, whatever the earlier
  ones returned, and the result is true only if every action was accepted.
\<close>

fun addActions_spec ::
  "heap \<Rightarrow> real \<Rightarrow> mixer_channel \<Rightarrow> track_action list \<Rightarrow> jstime \<Rightarrow> jstime \<Rightarrow> jstime
     \<Rightarrow> (bool, mixer_channel) result" where
  "addActions_spec h now mc [] b m mn = Return True mc"
| "addActions_spec h now mc (action # actionList) b m mn =
     (case addActionMc h now mc action b m mn of
        Throw e mc1 \<Rightarrow> Throw e mc1
      | Return added mc1 \<Rightarrow>
          (case addActions_spec h now mc1 actionList b m mn of
             Throw e mc2 \<Rightarrow> Throw e mc2
           | Return others mc2 \<Rightarrow> Return (truthy added \<and> others) mc2))"

section \<open>Notions used in the statements\<close>

text \<open>What a call returned, if it returned, and what it threw, if it threw.\<close>

fun returned :: "('a, 's) result \<Rightarrow> 'a option" where
  "returned (Return v s) = Some v"
| "returned (Throw e s) = None"

fun thrown :: "('a, 's) result \<Rightarrow> error option" where
  "thrown (Return v s) = None"
| "thrown (Throw e s) = Some e"

text \<open>A track that takes up memory counts one against the bound of the cache.\<close>

definition counts :: "track \<Rightarrow> nat" where
  "counts t = (if isStatusLoadSuccess t \<or> isStatusLoading t then 1 else 0)"

text \<open>The guid is filed in the cache and its track is loaded or loading.\<close>

definition cached_live :: "heap \<Rightarrow> cache \<Rightarrow> string \<Rightarrow> bool" where
  "cached_live h c g =
     (case map_of c g of None \<Rightarrow> False
      | Some r \<Rightarrow> isStatusLoadSuccess (h r) \<or> isStatusLoading (h r))"

definition cache_inv :: "cache_state \<Rightarrow> bool" where
  "cache_inv s = (cache_wf s \<and> getNumTracksLoadedOrLoading (fst s) (snd s) \<le> MAX_TRACKS)"

text \<open>
  What holds of the channel next to the cache: it has its gain node, and as long as
  its track has no buffer it has no source node and is stopped.
\<close>

definition chan_ok :: "heap \<Rightarrow> mixer_channel \<Rightarrow> bool" where
  "chan_ok h mc =
     (gainNode mc \<noteq> None
      \<and> (if audioBuffer (h (track mc)) = None
         then sourceNode mc = None \<and> playState mc = STOPPED else True))"

text \<open>
  Two relations between a channel before and after a call: the track and the presence
  of the gain node are kept; and the state of a channel that has no source node and
  is stopped.
\<close>

definition same_base :: "mixer_channel \<Rightarrow> mixer_channel \<Rightarrow> bool" where
  "same_base mc mc' = (track mc' = track mc \<and> (gainNode mc \<noteq> None \<longrightarrow> gainNode mc' \<noteq> None))"

definition idle :: "mixer_channel \<Rightarrow> bool" where
  "idle mc = (sourceNode mc = None \<and> playState mc = STOPPED)"

definition sys_inv :: "sys_state \<Rightarrow> bool" where
  "sys_inv s = (case s of (h, c, mc) \<Rightarrow> cache_inv (h, c) \<and> chan_ok h mc)"

section \<open>Concrete tracks, channels and actions\<close>

definition track_unloaded :: track where
  "track_unloaded =
     \<lparr>guid = ''com.soundcloud~1253'', loadStatus = NOT_LOADED, audioBuffer = None,
      bpm = 120, title = ''first'', audioSourceKey = ''tracks/1253''\<rparr>"

definition heap_unloaded :: heap where
  "heap_unloaded = (\<lambda>r. track_unloaded)"

definition heap_loaded :: heap where
  "heap_loaded = heap_unloaded(0 := setAudioBuffer [0, 1] (heap_unloaded 0))"

text \<open>
  A full cache: six loaded tracks, the references 0 to 5, filed under their guids.
  Reference 6 is a track that is not loaded and not cached.
\<close>

definition loaded_track :: "string \<Rightarrow> track" where
  "loaded_track g =
     \<lparr>guid = g, loadStatus = LOAD_SUCCESS, audioBuffer = Some [0, 1],
      bpm = 120, title = g, audioSourceKey = g\<rparr>"

definition full_heap :: heap where
  "full_heap = heap_unloaded
     (0 := loaded_track ''t0'', 1 := loaded_track ''t1'', 2 := loaded_track ''t2'',
      3 := loaded_track ''t3'', 4 := loaded_track ''t4'', 5 := loaded_track ''t5'')"

definition full_cache :: cache where
  "full_cache = [(''t0'', 0), (''t1'', 1), (''t2'', 2), (''t3'', 3), (''t4'', 4), (''t5'', 5)]"

text \<open>A channel built before its track is loaded, and one built after.\<close>

definition channel_unloaded :: mixer_channel where
  "channel_unloaded = newMixerChannel heap_unloaded 0 0"

definition channel_loaded :: mixer_channel where
  "channel_loaded = newMixerChannel heap_loaded 0 0"

definition play_action :: track_action where
  "play_action =
     \<lparr>getActionType = PLAY, getActionTarget = SOURCE,
      getActionTrackGuid = ''com.soundcloud~1253'', getActionTimeMSAbs = 1000,
      getActionOffsetMS = Some 0, getPitchValueApplied = 1, getEndVal = 0,
      getFadeNumBeats = 0\<rparr>"

definition pitch_action :: track_action where
  "pitch_action = play_action\<lparr>getActionType := PITCH, getActionTimeMSAbs := 100,
     getPitchValueApplied := 1.5\<rparr>"

definition other_track_action :: track_action where
  "other_track_action = pitch_action\<lparr>getActionTrackGuid := ''com.soundcloud~4859''\<rparr>"

definition fade_action :: track_action where
  "fade_action = play_action\<lparr>getActionType := GAIN_FADE, getActionTarget := GAIN,
     getEndVal := 0.25, getFadeNumBeats := 8\<rparr>"

text \<open>A channel in state stop-scheduled, the stop being due at 1000 ms.\<close>

definition channel_stop_scheduled :: mixer_channel where
  "channel_stop_scheduled =
     channel_loaded\<lparr>playState := PLAYING_AND_STOP_SCHEDULED,
       startScheduledTimeMS := Some 0, startedAtOffsetMS := Some 0,
       stopScheduledTimeMS := Some 1000, stoppedAtOffsetMS := Some 1000\<rparr>"

text \<open>The loaded channel after the gain fade was added to it.\<close>

definition channel_fading :: mixer_channel where
  "channel_fading = state_of (addActionMc heap_loaded 0 channel_loaded fade_action None None None)"

section \<open>The cache: its invariant\<close>

lemma guid_setters [simp]:
  "guid (setStatusLoading t) = guid t"
  "guid (setStatusLoadFailed t) = guid t"
  "guid (setStatusNotLoaded b t) = guid t"
  "guid (setAudioBuffer buf t) = guid t"
  by (simp_all add: setStatusLoading_def setStatusLoadFailed_def setStatusNotLoaded_def
      setAudioBuffer_def)

lemma wf_refs_distinct:
  assumes "distinct (map fst c)" "list_all (\<lambda>(g, r). guid (h r) = g) c"
  shows "distinct (map snd c)"
  using assms
proof (induction c)
  case Nil
  then show ?case by simp
next
  case (Cons a c)
  obtain g r where a: "a = (g, r)" by (cases a)
  have "r \<notin> snd ` set c"
  proof
    assume "r \<in> snd ` set c"
    then obtain g' where in_c: "(g', r) \<in> set c" by auto
    with Cons.prems(2) have "guid (h r) = g'" by (auto simp: list_all_iff)
    moreover from Cons.prems(2) a have "guid (h r) = g" by simp
    ultimately have "g \<in> fst ` set c" using in_c by force
    with Cons.prems(1) a show False by simp
  qed
  with Cons a show ?case by simp
qed

lemma count_upd_notin:
  "r \<notin> snd ` set c \<Longrightarrow>
     getNumTracksLoadedOrLoading (h(r := t)) c = getNumTracksLoadedOrLoading h c"
  by (induction c) auto

lemma count_upd_in:
  "distinct (map snd c) \<Longrightarrow> r \<in> snd ` set c \<Longrightarrow>
     getNumTracksLoadedOrLoading (h(r := t)) c + counts (h r)
       = getNumTracksLoadedOrLoading h c + counts t"
proof (induction c)
  case Nil
  then show ?case by simp
next
  case (Cons a c)
  obtain g r' where a: "a = (g, r')" by (cases a)
  show ?case
  proof (cases "r' = r")
    case True
    with Cons.prems a have "r \<notin> snd ` set c" by auto
    then have "getNumTracksLoadedOrLoading (h(r := t)) c = getNumTracksLoadedOrLoading h c"
      by (rule count_upd_notin)
    then show ?thesis using a True by (simp add: counts_def fun_upd_same del: fun_upd_apply)
  next
    case False
    with Cons a show ?thesis by (auto simp: counts_def)
  qed
qed

lemma count_append [simp]:
  "getNumTracksLoadedOrLoading h (c @ d) =
     getNumTracksLoadedOrLoading h c + getNumTracksLoadedOrLoading h d"
  by (induction c) auto

lemma evictLoop_cases:
  "evictLoop pins h c = (b, h') \<Longrightarrow>
     (\<not> b \<and> h' = h) \<or>
     (b \<and> (\<exists>g r. (g, r) \<in> set c \<and> isStatusLoadSuccess (h r) \<and> g \<notin> set pins \<and>
            h' = h(r := setStatusNotLoaded True (h r))))"
proof (induction c)
  case Nil
  then show ?case by simp
next
  case (Cons a c)
  obtain g r where a: "a = (g, r)" by (cases a)
  show ?case
  proof (cases "isStatusLoadSuccess (h r) \<and> g \<notin> set pins")
    case True
    with Cons.prems a have "b" "h' = h(r := setStatusNotLoaded True (h r))" by auto
    moreover have "(g, r) \<in> set (a # c)" using a by simp
    ultimately show ?thesis using True by blast
  next
    case False
    with Cons.prems a have "evictLoop pins h c = (b, h')" by auto
    from Cons.IH [OF this] show ?thesis by auto
  qed
qed


lemma wf_upd:
  "cache_wf (h, c) \<Longrightarrow> guid t = guid (h r) \<Longrightarrow> cache_wf (h(r := t), c)"
  by (auto simp: cache_wf_def list_all_iff)

lemma wf_ref_key:
  "cache_wf (h, c) \<Longrightarrow> (g, r) \<in> set c \<Longrightarrow> g = guid (h r)"
  by (auto simp: cache_wf_def list_all_iff)

lemma wf_distinct_refs: "cache_wf (h, c) \<Longrightarrow> distinct (map snd c)"
  unfolding cache_wf_def using wf_refs_distinct by auto

lemma wf_map_of:
  "cache_wf (h, c) \<Longrightarrow> (g, r) \<in> set c \<Longrightarrow> map_of c g = Some r"
  by (simp add: cache_wf_def)

lemma contains_iff: "contains c g \<longleftrightarrow> g \<in> fst ` set c"
  by (simp add: contains_def map_of_eq_None_iff)

text \<open>The last two statements of addTrackAsLoading: mark the track, file it if new.\<close>

lemma mark_and_file_wf:
  assumes "cache_wf (h, c)"
  shows "cache_wf (h(r := setStatusLoading (h r)),
           (if \<not> contains c (guid (h r)) then c @ [(guid (h r), r)] else c))"
proof -
  let ?h = "h(r := setStatusLoading (h r))"
  have wf: "cache_wf (?h, c)" using assms by (rule wf_upd) simp
  show ?thesis
  proof (cases "contains c (guid (h r))")
    case True
    with wf show ?thesis by simp
  next
    case False
    then have "guid (h r) \<notin> fst ` set c" by (simp add: contains_iff)
    with wf have "cache_wf (?h, c @ [(guid (h r), r)])"
      by (auto simp: cache_wf_def)
    with False show ?thesis by simp
  qed
qed

lemma mark_and_file_count:
  assumes "cache_wf (h, c)"
  shows "getNumTracksLoadedOrLoading (h(r := setStatusLoading (h r)))
           (if \<not> contains c (guid (h r)) then c @ [(guid (h r), r)] else c)
         \<le> getNumTracksLoadedOrLoading h c + 1"
proof (cases "r \<in> snd ` set c")
  case True
  then obtain g where in_c: "(g, r) \<in> set c" by auto
  with assms have "g = guid (h r)" by (rule wf_ref_key)
  with in_c have "contains c (guid (h r))" by (force simp: contains_iff)
  moreover have "getNumTracksLoadedOrLoading (h(r := setStatusLoading (h r))) c + counts (h r)
      = getNumTracksLoadedOrLoading h c + counts (setStatusLoading (h r))"
    using wf_distinct_refs [OF assms] True by (rule count_upd_in)
  moreover have "counts (setStatusLoading (h r)) = 1"
    by (simp add: counts_def isStatusLoading_def setStatusLoading_def)
  ultimately show ?thesis by simp
next
  case False
  then have "getNumTracksLoadedOrLoading (h(r := setStatusLoading (h r))) c
      = getNumTracksLoadedOrLoading h c"
    by (rule count_upd_notin)
  then show ?thesis by (simp del: fun_upd_apply)
qed

lemma mark_cached_count:
  assumes "cache_wf (h, c)" and "map_of c (guid (h r)) = Some r'"
    and "isStatusLoadSuccess (h r') \<or> isStatusLoading (h r')"
  shows "getNumTracksLoadedOrLoading (h(r := setStatusLoading (h r))) c
         = getNumTracksLoadedOrLoading h c"
proof (cases "r \<in> snd ` set c")
  case True
  then obtain g where in_c: "(g, r) \<in> set c" by auto
  with assms(1) have g: "g = guid (h r)" by (rule wf_ref_key)
  from wf_map_of [OF assms(1) in_c] g assms(2) have "r' = r" by simp
  with assms(3) have "counts (h r) = 1" by (simp add: counts_def)
  moreover have "getNumTracksLoadedOrLoading (h(r := setStatusLoading (h r))) c + counts (h r)
      = getNumTracksLoadedOrLoading h c + counts (setStatusLoading (h r))"
    using wf_distinct_refs [OF assms(1)] True by (rule count_upd_in)
  moreover have "counts (setStatusLoading (h r)) = 1"
    by (simp add: counts_def isStatusLoading_def setStatusLoading_def)
  ultimately show ?thesis by simp
next
  case False
  then show ?thesis by (rule count_upd_notin)
qed

lemma evict_count:
  assumes "cache_wf (h, c)" and "(g, r) \<in> set c" and "isStatusLoadSuccess (h r)"
  shows "getNumTracksLoadedOrLoading (h(r := setStatusNotLoaded True (h r))) c + 1
         = getNumTracksLoadedOrLoading h c"
proof -
  from assms(2) have "r \<in> snd ` set c" by force
  with wf_distinct_refs [OF assms(1)]
  have "getNumTracksLoadedOrLoading (h(r := setStatusNotLoaded True (h r))) c + counts (h r)
      = getNumTracksLoadedOrLoading h c + counts (setStatusNotLoaded True (h r))"
    by (rule count_upd_in)
  moreover have "counts (h r) = 1" using assms(3) by (simp add: counts_def)
  moreover have "counts (setStatusNotLoaded True (h r)) = 0"
    by (simp add: counts_def isStatusLoading_def isStatusLoadSuccess_def setStatusNotLoaded_def)
  ultimately show ?thesis by simp
qed


lemma checkAndMakeSpace_cases:
  assumes "checkAndMakeSpace pins g (h, c) = (b, h1)"
  shows "(getNumTracksLoadedOrLoading h c < MAX_TRACKS \<and> b \<and> h1 = h)
       \<or> (MAX_TRACKS \<le> getNumTracksLoadedOrLoading h c \<and> cached_live h c g \<and> b \<and> h1 = h)
       \<or> (MAX_TRACKS \<le> getNumTracksLoadedOrLoading h c \<and> \<not> cached_live h c g
            \<and> evictLoop pins h c = (b, h1))"
  using assms by (auto simp: checkAndMakeSpace_def cached_live_def split: if_splits)

lemma evictLoop_guid:
  "evictLoop pins h c = (b, h1) \<Longrightarrow> guid (h1 x) = guid (h x)"
  by (drule evictLoop_cases) auto

lemma checkAndMakeSpace_guid:
  "checkAndMakeSpace pins g (h, c) = (b, h1) \<Longrightarrow> guid (h1 x) = guid (h x)"
  by (drule checkAndMakeSpace_cases) (auto dest: evictLoop_guid)

lemma addTrackAsLoading_Return:
  assumes "checkAndMakeSpace pins (guid (h r)) (h, c) = (True, h1)"
  shows "addTrackAsLoading pins r (h, c) =
     Return True (h1(r := setStatusLoading (h1 r)),
       (if \<not> contains c (guid (h r)) then c @ [(guid (h r), r)] else c))"
  using assms checkAndMakeSpace_guid [OF assms, of r]
  by (simp add: addTrackAsLoading_def Let_def)

lemma addTrackAsLoading_Throw:
  assumes "checkAndMakeSpace pins (guid (h r)) (h, c) = (False, h1)"
  shows "addTrackAsLoading pins r (h, c) = Throw TrackCacheOutOfMemory (h1, c)"
  using assms by (simp add: addTrackAsLoading_def)

lemma cache_inv_pair:
  "cache_inv (h, c) = (cache_wf (h, c) \<and> getNumTracksLoadedOrLoading h c \<le> MAX_TRACKS)"
  by (simp add: cache_inv_def)

lemma space_then_mark:
  assumes wf: "cache_wf (h, c)" and le: "getNumTracksLoadedOrLoading h c \<le> MAX_TRACKS"
    and sp: "checkAndMakeSpace pins (guid (h r)) (h, c) = (True, h1)"
  shows "cache_inv (h1(r := setStatusLoading (h1 r)),
       (if \<not> contains c (guid (h r)) then c @ [(guid (h r), r)] else c))"
proof -
  let ?g = "guid (h r)"
  let ?c2 = "if \<not> contains c ?g then c @ [(?g, r)] else c"
  from checkAndMakeSpace_cases [OF sp]
  consider (room) "getNumTracksLoadedOrLoading h c < MAX_TRACKS" "h1 = h"
    | (cached) "cached_live h c ?g" "h1 = h"
    | (evict) "evictLoop pins h c = (True, h1)"
    by auto
  then show ?thesis
  proof cases
    case room
    have "getNumTracksLoadedOrLoading (h(r := setStatusLoading (h r))) ?c2
        \<le> getNumTracksLoadedOrLoading h c + 1"
      using wf by (rule mark_and_file_count)
    with room(1) have "getNumTracksLoadedOrLoading (h(r := setStatusLoading (h r))) ?c2
        \<le> MAX_TRACKS" by linarith
    moreover have "cache_wf (h(r := setStatusLoading (h r)), ?c2)"
      using wf by (rule mark_and_file_wf)
    ultimately show ?thesis unfolding room(2) cache_inv_pair by blast
  next
    case cached
    then obtain r' where r': "map_of c ?g = Some r'"
      "isStatusLoadSuccess (h r') \<or> isStatusLoading (h r')"
      by (auto simp: cached_live_def split: option.splits)
    then have c2: "?c2 = c" by (simp add: contains_def)
    have "getNumTracksLoadedOrLoading (h(r := setStatusLoading (h r))) c
        = getNumTracksLoadedOrLoading h c"
      using wf r' by (rule mark_cached_count)
    with le have "getNumTracksLoadedOrLoading (h(r := setStatusLoading (h r))) c
        \<le> MAX_TRACKS" by linarith
    moreover have "cache_wf (h(r := setStatusLoading (h r)), c)"
      using wf by (rule wf_upd) simp
    ultimately show ?thesis unfolding cached(2) c2 cache_inv_pair by blast
  next
    case evict
    from evictLoop_cases [OF evict] obtain ge re where ev:
      "(ge, re) \<in> set c" "isStatusLoadSuccess (h re)"
      "h1 = h(re := setStatusNotLoaded True (h re))"
      by auto
    have wf1: "cache_wf (h1, c)" unfolding ev(3) using wf by (rule wf_upd) simp
    have g1: "guid (h1 r) = ?g" using evict by (rule evictLoop_guid)
    have "getNumTracksLoadedOrLoading h1 c + 1 = getNumTracksLoadedOrLoading h c"
      unfolding ev(3) using wf ev(1,2) by (rule evict_count)
    moreover have "getNumTracksLoadedOrLoading (h1(r := setStatusLoading (h1 r)))
          (if \<not> contains c (guid (h1 r)) then c @ [(guid (h1 r), r)] else c)
        \<le> getNumTracksLoadedOrLoading h1 c + 1"
      using wf1 by (rule mark_and_file_count)
    ultimately have "getNumTracksLoadedOrLoading (h1(r := setStatusLoading (h1 r)))
          (if \<not> contains c (guid (h1 r)) then c @ [(guid (h1 r), r)] else c)
        \<le> MAX_TRACKS"
      using le by linarith
    moreover have "cache_wf (h1(r := setStatusLoading (h1 r)),
          (if \<not> contains c (guid (h1 r)) then c @ [(guid (h1 r), r)] else c))"
      using wf1 by (rule mark_and_file_wf)
    ultimately show ?thesis unfolding g1 cache_inv_pair by blast
  qed
qed

lemma addTrackAsLoading_inv:
  assumes "cache_inv s"
  shows "cache_inv (state_of (addTrackAsLoading pins r s))"
proof -
  obtain h c where s: "s = (h, c)" by (cases s)
  obtain b h1 where sp: "checkAndMakeSpace pins (guid (h r)) (h, c) = (b, h1)"
    by (cases "checkAndMakeSpace pins (guid (h r)) (h, c)")
  from assms s have wf: "cache_wf (h, c)"
    and le: "getNumTracksLoadedOrLoading h c \<le> MAX_TRACKS"
    by (simp_all add: cache_inv_def)
  show ?thesis
  proof (cases b)
    case True
    with sp have sp': "checkAndMakeSpace pins (guid (h r)) (h, c) = (True, h1)" by simp
    show ?thesis unfolding s addTrackAsLoading_Return [OF sp'] state_of.simps
      using wf le sp' by (rule space_then_mark)
  next
    case False
    with checkAndMakeSpace_cases [OF sp] have "evictLoop pins h c = (False, h1)" by auto
    from evictLoop_cases [OF this] have "h1 = h" by simp
    with sp False s assms show ?thesis by (simp add: addTrackAsLoading_Throw)
  qed
qed


lemma addTrackAsLoading_loading:
  assumes "addTrackAsLoading pins r (h, c) = Return v (h', c')"
  shows "loadStatus (h' r) = LOADING \<and> v = True"
proof -
  obtain b h1 where sp: "checkAndMakeSpace pins (guid (h r)) (h, c) = (b, h1)"
    by (cases "checkAndMakeSpace pins (guid (h r)) (h, c)")
  show ?thesis
  proof (cases b)
    case True
    with sp have "checkAndMakeSpace pins (guid (h r)) (h, c) = (True, h1)" by simp
    from addTrackAsLoading_Return [OF this] assms
    show ?thesis by (auto simp: setStatusLoading_def)
  next
    case False
    with sp have "checkAndMakeSpace pins (guid (h r)) (h, c) = (False, h1)" by simp
    from addTrackAsLoading_Throw [OF this] assms show ?thesis by simp
  qed
qed

lemma count_upd_le:
  assumes "distinct (map snd c)" and "counts t \<le> counts (h r)"
  shows "getNumTracksLoadedOrLoading (h(r := t)) c \<le> getNumTracksLoadedOrLoading h c"
proof (cases "r \<in> snd ` set c")
  case True
  with assms(1) have "getNumTracksLoadedOrLoading (h(r := t)) c + counts (h r)
      = getNumTracksLoadedOrLoading h c + counts t"
    by (rule count_upd_in)
  with assms(2) show ?thesis by linarith
next
  case False
  then have "getNumTracksLoadedOrLoading (h(r := t)) c = getNumTracksLoadedOrLoading h c"
    by (rule count_upd_notin)
  then show ?thesis by linarith
qed

lemma callback_inv:
  assumes "cache_inv (h, c)" and "isStatusLoading (h r)" and "guid t = guid (h r)"
  shows "cache_inv (h(r := t), c)"
proof -
  from assms(1) have wf: "cache_wf (h, c)"
    and le: "getNumTracksLoadedOrLoading h c \<le> MAX_TRACKS"
    by (simp_all add: cache_inv_pair)
  from assms(2) have "counts t \<le> counts (h r)" by (simp add: counts_def)
  with wf_distinct_refs [OF wf]
  have "getNumTracksLoadedOrLoading (h(r := t)) c \<le> getNumTracksLoadedOrLoading h c"
    by (rule count_upd_le)
  with le have "getNumTracksLoadedOrLoading (h(r := t)) c \<le> MAX_TRACKS" by linarith
  moreover have "cache_wf (h(r := t), c)" using wf assms(3) by (rule wf_upd)
  ultimately show ?thesis unfolding cache_inv_pair by blast
qed

text \<open>The load proper: what pLoadSingleTrack does when it decides to get the track.\<close>

lemma pLoadSingleTrack_get:
  assumes "\<not> cached_live h c (guid (h r))"
  shows "pLoadSingleTrack getObject decodeAudioData pins r (h, c) =
    (case addTrackAsLoading pins r (h, c) of
       Throw e s1 \<Rightarrow> (Rejected CacheFullMessage, s1)
     | Return v (h1, c1) \<Rightarrow>
         (case getObject (audioSourceKey (h1 r)) of
            None \<Rightarrow> (Rejected TrackRequestError, (h1(r := setStatusLoadFailed (h1 r)), c1))
          | Some body \<Rightarrow>
              (case decodeAudioData body of
                 Some buffer \<Rightarrow> (Resolved r, (h1(r := setAudioBuffer buffer (h1 r)), c1))
               | None \<Rightarrow>
                   (Rejected DecodingError, (h1(r := setStatusLoadFailed (h1 r)), c1)))))"
  using assms
  by (auto simp: pLoadSingleTrack_def cached_live_def getTrack_def contains_def Let_def
      split: option.splits)

lemma pLoadSingleTrack_skip:
  assumes "cached_live h c (guid (h r))"
  shows "snd (pLoadSingleTrack getObject decodeAudioData pins r (h, c)) = (h, c)"
  using assms
  by (auto simp: pLoadSingleTrack_def cached_live_def getTrack_def contains_def Let_def
      split: option.splits)

lemma pLoadSingleTrack_inv:
  assumes "cache_inv s"
  shows "cache_inv (snd (pLoadSingleTrack getObject decodeAudioData pins r s))"
proof -
  obtain h c where s: "s = (h, c)" by (cases s)
  show ?thesis
  proof (cases "cached_live h c (guid (h r))")
    case True
    from pLoadSingleTrack_skip [OF this] assms s show ?thesis by simp
  next
    case False
    note get = pLoadSingleTrack_get [OF False, of getObject decodeAudioData pins]
    show ?thesis
    proof (cases "addTrackAsLoading pins r (h, c)")
      case (Throw e s1)
      with addTrackAsLoading_inv [OF assms, of pins r] s get show ?thesis by simp
    next
      case (Return v s1)
      obtain h1 c1 where s1: "s1 = (h1, c1)" by (cases s1)
      from Return s1 have ret: "addTrackAsLoading pins r (h, c) = Return v (h1, c1)" by simp
      from addTrackAsLoading_inv [OF assms, of pins r] s ret
      have inv1: "cache_inv (h1, c1)" by simp
      from addTrackAsLoading_loading [OF ret] have ld: "isStatusLoading (h1 r)"
        by (simp add: isStatusLoading_def)
      have failed: "cache_inv (h1(r := setStatusLoadFailed (h1 r)), c1)"
        using inv1 ld by (rule callback_inv) simp
      have loaded: "cache_inv (h1(r := setAudioBuffer b (h1 r)), c1)" for b
        using inv1 ld by (rule callback_inv) simp
      from get ret failed loaded s show ?thesis
        by (simp split: option.splits del: fun_upd_apply)
    qed
  qed
qed

lemma call_state_inv: "cache_inv s \<Longrightarrow> cache_inv (call_state x s)"
  by (cases x) (simp_all add: addTrackAsLoading_inv pLoadSingleTrack_inv)

lemma run_calls_inv: "cache_inv s \<Longrightarrow> cache_inv (run_calls xs s)"
  by (induction xs arbitrary: s) (simp_all add: call_state_inv)

lemma empty_cache_inv: "cache_inv (h, [])"
  by (simp add: cache_inv_def cache_wf_def)

lemma count_filter:
  "getNumTracksLoadedOrLoading h c =
     length (filter (\<lambda>(g, r). loadStatus (h r) = LOADING \<or> loadStatus (h r) = LOAD_SUCCESS) c)"
  by (induction c) (auto simp: isStatusLoading_def isStatusLoadSuccess_def split: if_splits)

text \<open>
  Claim C1. Start from the empty cache and make any sequence of calls of
  \<^verbatim>\<open>addTrackAsLoading\<close>, each returning true or throwing the out-of-memory
  exception, mixed at will with loads through \<^verbatim>\<open>pLoadSingleTrack\<close> (which is how
  tracks become loaded, and so how eviction comes into play), with any pin sets and any
  outcomes of the fetches and decodes. Then the number of cached entries whose status
  is LOADING or LOAD\_SUCCESS is at most \<open>MAX_TRACKS\<close>. The count is that of
  \<^verbatim>\<open>_getNumTracksLoadedOrLoading\<close>, which skips the entries that are not loaded or
  failed: they do not count against the bound.
\<close>

theorem cache_bound:
  "getNumTracksLoadedOrLoading (fst (run_calls calls (h0, []))) (snd (run_calls calls (h0, [])))
     \<le> MAX_TRACKS
   \<and> length (filter (\<lambda>(g, r). loadStatus (fst (run_calls calls (h0, [])) r) = LOADING
                       \<or> loadStatus (fst (run_calls calls (h0, [])) r) = LOAD_SUCCESS)
               (snd (run_calls calls (h0, []))))
     \<le> MAX_TRACKS"
proof -
  have "cache_inv (run_calls calls (h0, []))"
    using empty_cache_inv by (rule run_calls_inv)
  then have "getNumTracksLoadedOrLoading (fst (run_calls calls (h0, [])))
      (snd (run_calls calls (h0, []))) \<le> MAX_TRACKS"
    by (simp add: cache_inv_def)
  then show ?thesis by (simp only: count_filter)
qed


section \<open>The cache: eviction, marking and loading\<close>

lemma evicted_not_target:
  assumes wf: "cache_wf (h, c)" and nl: "\<not> cached_live h c (guid (h r))"
    and ev: "(ge, re) \<in> set c" "isStatusLoadSuccess (h re)"
  shows "re \<noteq> r"
proof
  assume "re = r"
  with ev(1) have in_c: "(ge, r) \<in> set c" by simp
  with wf have "ge = guid (h r)" by (rule wf_ref_key)
  with wf_map_of [OF wf in_c] have "map_of c (guid (h r)) = Some r" by simp
  with ev(2) \<open>re = r\<close> have "cached_live h c (guid (h r))" by (simp add: cached_live_def)
  with nl show False by simp
qed

lemma addTrackAsLoading_heap:
  assumes wf: "cache_wf (h, c)"
    and st: "state_of (addTrackAsLoading pins r (h, c)) = (h', c')"
  shows "h' = h \<or> h' = h(r := setStatusLoading (h r))
    \<or> (\<exists>re. re \<noteq> r \<and> isStatusLoadSuccess (h re) \<and> guid (h re) \<notin> set pins
          \<and> (guid (h re), re) \<in> set c
          \<and> h' = h(re := setStatusNotLoaded True (h re), r := setStatusLoading (h r)))"
proof -
  obtain b h1 where sp: "checkAndMakeSpace pins (guid (h r)) (h, c) = (b, h1)"
    by (cases "checkAndMakeSpace pins (guid (h r)) (h, c)")
  show ?thesis
  proof (cases b)
    case False
    with checkAndMakeSpace_cases [OF sp] have "evictLoop pins h c = (False, h1)" by auto
    from evictLoop_cases [OF this] have "h1 = h" by simp
    with sp False st show ?thesis by (simp add: addTrackAsLoading_Throw)
  next
    case True
    with sp have sp': "checkAndMakeSpace pins (guid (h r)) (h, c) = (True, h1)" by simp
    from st have h': "h' = h1(r := setStatusLoading (h1 r))"
      unfolding addTrackAsLoading_Return [OF sp'] by simp
    from checkAndMakeSpace_cases [OF sp']
    consider (same) "h1 = h"
      | (evict) "\<not> cached_live h c (guid (h r))" "evictLoop pins h c = (True, h1)"
      by auto
    then show ?thesis
    proof cases
      case same
      with h' show ?thesis by simp
    next
      case evict
      from evictLoop_cases [OF evict(2)] obtain ge re where ev:
        "(ge, re) \<in> set c" "isStatusLoadSuccess (h re)" "ge \<notin> set pins"
        "h1 = h(re := setStatusNotLoaded True (h re))"
        by auto
      from wf evict(1) ev(1,2) have ne: "re \<noteq> r" by (rule evicted_not_target)
      from wf ev(1) have ge: "ge = guid (h re)" by (rule wf_ref_key)
      from h' ev(4) ne have "h' = h(re := setStatusNotLoaded True (h re),
          r := setStatusLoading (h r))" by simp
      with ne ev ge show ?thesis by blast
    qed
  qed
qed

text \<open>
  Claim C2. In a cache whose entries are filed under the guids of their tracks (every
  cache built by the calls of this module is), a call of \<^verbatim>\<open>addTrackAsLoading\<close>,
  whether it returns or throws, leaves every track whose guid is in the pin set as it
  was, whatever the memory pressure; the only exception is the track passed to the
  call itself, which is marked loading when the call returns, and that is no eviction.
  Any other track the call changes was evicted: it was a cached entry with status
  LOAD\_SUCCESS whose guid is not in the pin set, and it is now not loaded with its
  buffer released.
\<close>

theorem pinned_never_evicted:
  assumes "cache_wf (h, c)"
    and "state_of (addTrackAsLoading pins r (h, c)) = (h', c')"
  shows "(\<forall>x. guid (h x) \<in> set pins \<longrightarrow>
            h' x = h x \<or> (x = r \<and> h' x = setStatusLoading (h x)))
       \<and> (\<forall>x. h' x = h x \<or> (x = r \<and> h' x = setStatusLoading (h x))
            \<or> (x \<noteq> r \<and> isStatusLoadSuccess (h x) \<and> guid (h x) \<notin> set pins
                 \<and> (guid (h x), x) \<in> set c
                 \<and> h' x = setStatusNotLoaded True (h x)
                 \<and> loadStatus (h' x) = NOT_LOADED \<and> audioBuffer (h' x) = None))"
proof -
  have nl: "loadStatus (setStatusNotLoaded True t) = NOT_LOADED
      \<and> audioBuffer (setStatusNotLoaded True t) = None" for t
    by (simp add: setStatusNotLoaded_def)
  from addTrackAsLoading_heap [OF assms]
  consider (same) "h' = h" | (mark) "h' = h(r := setStatusLoading (h r))"
    | (evict) re where "re \<noteq> r" "isStatusLoadSuccess (h re)" "guid (h re) \<notin> set pins"
        "(guid (h re), re) \<in> set c"
        "h' = h(re := setStatusNotLoaded True (h re), r := setStatusLoading (h r))"
    by blast
  then show ?thesis
  proof cases
    case same
    then show ?thesis by simp
  next
    case mark
    then show ?thesis by simp
  next
    case evict
    then show ?thesis using nl by (simp add: fun_upd_def) 
  qed
qed


lemma full_count: "getNumTracksLoadedOrLoading full_heap full_cache = 6"
  by (simp add: full_heap_def full_cache_def loaded_track_def isStatusLoadSuccess_def
      isStatusLoading_def)

lemma full_add:
  "addTrackAsLoading [''t0''] 6 (full_heap, full_cache) =
     Return True
       (full_heap(1 := setStatusNotLoaded True (full_heap 1), 6 := setStatusLoading (full_heap 6)),
        full_cache @ [(''com.soundcloud~1253'', 6)])"
proof -
  have g6: "guid (full_heap 6) = ''com.soundcloud~1253''"
    by (simp add: full_heap_def heap_unloaded_def track_unloaded_def)
  have ev: "evictLoop [''t0''] full_heap full_cache
      = (True, full_heap(1 := setStatusNotLoaded True (full_heap 1)))"
    by (simp add: full_heap_def full_cache_def loaded_track_def isStatusLoadSuccess_def)
  have "checkAndMakeSpace [''t0''] (guid (full_heap 6)) (full_heap, full_cache)
      = (True, full_heap(1 := setStatusNotLoaded True (full_heap 1)))"
    unfolding checkAndMakeSpace_def using ev
    by (simp add: full_count MAX_TRACKS_def g6) (simp add: full_cache_def)
  note ret = addTrackAsLoading_Return [OF this]
  have nc: "\<not> contains full_cache (guid (full_heap 6))"
    by (simp add: g6 contains_def full_cache_def)
  have other: "(full_heap(1 := setStatusNotLoaded True (full_heap 1))) 6 = full_heap 6"
    by simp
  show ?thesis unfolding ret other using nc by (simp only: if_True g6 simp_thms)
qed

theorem pinned_never_evicted_witness:
  "cache_wf (full_heap, full_cache)
   \<and> guid (full_heap 0) \<in> set [''t0'']
   \<and> fst (state_of (addTrackAsLoading [''t0''] 6 (full_heap, full_cache))) 0 = full_heap 0
   \<and> loadStatus (full_heap 1) = LOAD_SUCCESS
   \<and> loadStatus (fst (state_of (addTrackAsLoading [''t0''] 6 (full_heap, full_cache))) 1)
       = NOT_LOADED"
proof -
  have wf: "cache_wf (full_heap, full_cache)"
    by (simp add: cache_wf_def full_heap_def full_cache_def loaded_track_def)
  have pin: "guid (full_heap 0) \<in> set [''t0'']"
    by (simp add: full_heap_def loaded_track_def)
  obtain h' c' where st: "state_of (addTrackAsLoading [''t0''] 6 (full_heap, full_cache)) = (h', c')"
    by (cases "state_of (addTrackAsLoading [''t0''] 6 (full_heap, full_cache))")
  from pinned_never_evicted [OF wf st] pin
  have "h' 0 = full_heap 0 \<or> ((0::nat) = 6 \<and> h' 0 = setStatusLoading (full_heap 0))"
    by blast
  then have kept: "h' 0 = full_heap 0" by simp
  have was: "loadStatus (full_heap 1) = LOAD_SUCCESS"
    by (simp add: full_heap_def loaded_track_def)
  have now: "loadStatus (h' 1) = NOT_LOADED"
    using st unfolding full_add by (auto simp: setStatusNotLoaded_def)
  from wf pin kept was now st show ?thesis by simp
qed


lemma addTrackAsLoading_cached_loaded:
  assumes "getTrack c (guid (h r)) = Some r" and "loadStatus (h r) = LOAD_SUCCESS"
  shows "addTrackAsLoading pins r (h, c) = Return True (h(r := setStatusLoading (h r)), c)"
proof -
  from assms(1) have m: "map_of c (guid (h r)) = Some r"
    by (simp add: getTrack_def split: if_splits)
  then have ct: "contains c (guid (h r))" by (simp add: contains_def)
  from m assms(2) have "checkAndMakeSpace pins (guid (h r)) (h, c) = (True, h)"
    by (simp add: checkAndMakeSpace_def isStatusLoadSuccess_def)
  from addTrackAsLoading_Return [OF this] ct show ?thesis by simp
qed

text \<open>
  Claim C10. Whenever \<^verbatim>\<open>addTrackAsLoading\<close> returns, the track passed has status
  LOADING. That includes the track that is already cached and loaded: the call then
  returns true without evicting anything, the cache keeps its entries, and the only
  change is that the loaded entry is now LOADING (the shortcut of the space check for a
  track already cached does not skip the status write).
\<close>

theorem addTrackAsLoading_marks_loading:
  "(addTrackAsLoading pins r (h, c) = Return v (h', c') \<longrightarrow> loadStatus (h' r) = LOADING)
   \<and> (getTrack c (guid (h r)) = Some r \<and> loadStatus (h r) = LOAD_SUCCESS \<longrightarrow>
        addTrackAsLoading pins r (h, c) = Return True (h(r := setStatusLoading (h r)), c)
        \<and> loadStatus ((h(r := setStatusLoading (h r))) r) = LOADING)"
proof -
  have "loadStatus ((h(r := setStatusLoading (h r))) r) = LOADING"
    by (simp add: setStatusLoading_def)
  then show ?thesis
    using addTrackAsLoading_loading [of pins r h c v h' c']
      addTrackAsLoading_cached_loaded [of c h r pins]
    by blast
qed

theorem addTrackAsLoading_marks_loading_witness:
  "getTrack full_cache (guid (full_heap 2)) = Some 2
   \<and> loadStatus (full_heap 2) = LOAD_SUCCESS
   \<and> addTrackAsLoading [] 2 (full_heap, full_cache)
       = Return True (full_heap(2 := setStatusLoading (full_heap 2)), full_cache)
   \<and> loadStatus ((full_heap(2 := setStatusLoading (full_heap 2))) 2) = LOADING"
proof -
  have a: "getTrack full_cache (guid (full_heap 2)) = Some 2"
    by (simp add: getTrack_def contains_def full_cache_def full_heap_def loaded_track_def)
  have b: "loadStatus (full_heap 2) = LOAD_SUCCESS"
    by (simp add: full_heap_def loaded_track_def)
  from addTrackAsLoading_marks_loading [of "[]" 2 full_heap full_cache True
      "full_heap(2 := setStatusLoading (full_heap 2))" full_cache] a b
  show ?thesis by blast
qed


lemma pLoadSingleTrack_loaded:
  assumes "getTrack c (guid (h r)) = Some ct" and "loadStatus (h ct) = LOAD_SUCCESS"
  shows "pLoadSingleTrack getObject decodeAudioData pins r (h, c) = (Resolved r, (h, c))"
  using assms
  by (simp add: pLoadSingleTrack_def Let_def isStatusLoading_def isStatusLoadSuccess_def)

lemma pLoadSingleTrack_loading:
  assumes "getTrack c (guid (h r)) = Some ct" and "loadStatus (h ct) = LOADING"
  shows "pLoadSingleTrack getObject decodeAudioData pins r (h, c)
    = (Rejected (AlreadyLoading (guid (h r))), (h, c))"
  using assms
  by (simp add: pLoadSingleTrack_def Let_def isStatusLoading_def isStatusLoadSuccess_def)

lemma pLoadSingleTrack_fetch_failed:
  assumes "\<not> cached_live h c (guid (h r))"
    and "addTrackAsLoading pins r (h, c) = Return v (h1, c1)"
    and "getObject (audioSourceKey (h1 r)) = None"
  shows "pLoadSingleTrack getObject decodeAudioData pins r (h, c)
    = (Rejected TrackRequestError, (h1(r := setStatusLoadFailed (h1 r)), c1))"
  using assms(2,3) by (simp add: pLoadSingleTrack_get [OF assms(1)])

lemma pLoadSingleTrack_decode_failed:
  assumes "\<not> cached_live h c (guid (h r))"
    and "addTrackAsLoading pins r (h, c) = Return v (h1, c1)"
    and "getObject (audioSourceKey (h1 r)) = Some body"
    and "decodeAudioData body = None"
  shows "pLoadSingleTrack getObject decodeAudioData pins r (h, c)
    = (Rejected DecodingError, (h1(r := setStatusLoadFailed (h1 r)), c1))"
  using assms(2,3,4) by (simp add: pLoadSingleTrack_get [OF assms(1)])

lemma pLoadSingleTrack_decoded:
  assumes "\<not> cached_live h c (guid (h r))"
    and "addTrackAsLoading pins r (h, c) = Return v (h1, c1)"
    and "getObject (audioSourceKey (h1 r)) = Some body"
    and "decodeAudioData body = Some buffer"
  shows "pLoadSingleTrack getObject decodeAudioData pins r (h, c)
    = (Resolved r, (h1(r := setAudioBuffer buffer (h1 r)), c1))"
  using assms(2,3,4) by (simp add: pLoadSingleTrack_get [OF assms(1)])

text \<open>
  Claim C6. \<^verbatim>\<open>pLoadSingleTrack\<close>, for any fetch and any decoder:
  if the track's guid is cached with status LOAD\_SUCCESS the promise is resolved at
  once and nothing changes, whatever the fetch and the decoder would do; if it is cached
  with status LOADING the promise is rejected at once with the already-loading error
  and nothing changes; otherwise, once \<^verbatim>\<open>addTrackAsLoading\<close> has returned, a failing
  fetch marks the track LOAD\_FAILED and rejects with the request error, a failing
  decode marks the track LOAD\_FAILED and rejects with the decoding error, and a
  successful decode stores the buffer on the track, which is then LOAD\_SUCCESS, and
  resolves with the track.
\<close>

theorem pLoadSingleTrack_outcomes:
  "(getTrack c (guid (h r)) = Some ct \<and> loadStatus (h ct) = LOAD_SUCCESS \<longrightarrow>
      pLoadSingleTrack getObject decodeAudioData pins r (h, c) = (Resolved r, (h, c)))
   \<and> (getTrack c (guid (h r)) = Some ct \<and> loadStatus (h ct) = LOADING \<longrightarrow>
      pLoadSingleTrack getObject decodeAudioData pins r (h, c)
        = (Rejected (AlreadyLoading (guid (h r))), (h, c)))
   \<and> (\<not> cached_live h c (guid (h r))
        \<and> addTrackAsLoading pins r (h, c) = Return v (h1, c1)
        \<and> getObject (audioSourceKey (h1 r)) = None \<longrightarrow>
      pLoadSingleTrack getObject decodeAudioData pins r (h, c)
        = (Rejected TrackRequestError, (h1(r := setStatusLoadFailed (h1 r)), c1))
      \<and> loadStatus (setStatusLoadFailed (h1 r)) = LOAD_FAILED)
   \<and> (\<not> cached_live h c (guid (h r))
        \<and> addTrackAsLoading pins r (h, c) = Return v (h1, c1)
        \<and> getObject (audioSourceKey (h1 r)) = Some body
        \<and> decodeAudioData body = None \<longrightarrow>
      pLoadSingleTrack getObject decodeAudioData pins r (h, c)
        = (Rejected DecodingError, (h1(r := setStatusLoadFailed (h1 r)), c1))
      \<and> loadStatus (setStatusLoadFailed (h1 r)) = LOAD_FAILED)
   \<and> (\<not> cached_live h c (guid (h r))
        \<and> addTrackAsLoading pins r (h, c) = Return v (h1, c1)
        \<and> getObject (audioSourceKey (h1 r)) = Some body
        \<and> decodeAudioData body = Some buffer \<longrightarrow>
      pLoadSingleTrack getObject decodeAudioData pins r (h, c)
        = (Resolved r, (h1(r := setAudioBuffer buffer (h1 r)), c1))
      \<and> loadStatus (setAudioBuffer buffer (h1 r)) = LOAD_SUCCESS
      \<and> audioBuffer (setAudioBuffer buffer (h1 r)) = Some buffer)"
proof -
  have f: "loadStatus (setStatusLoadFailed t) = LOAD_FAILED" for t
    by (simp add: setStatusLoadFailed_def)
  have s: "loadStatus (setAudioBuffer b t) = LOAD_SUCCESS
      \<and> audioBuffer (setAudioBuffer b t) = Some b" for b t
    by (simp add: setAudioBuffer_def)
  show ?thesis
    using pLoadSingleTrack_loaded [of c h r ct getObject decodeAudioData pins]
      pLoadSingleTrack_loading [of c h r ct getObject decodeAudioData pins]
      pLoadSingleTrack_fetch_failed [of h c r pins v h1 c1 getObject decodeAudioData]
      pLoadSingleTrack_decode_failed [of h c r pins v h1 c1 getObject body decodeAudioData]
      pLoadSingleTrack_decoded [of h c r pins v h1 c1 getObject body decodeAudioData buffer]
      f s
    by blast
qed


lemma fresh_add:
  "addTrackAsLoading [] 0 (heap_unloaded, [])
     = Return True (heap_unloaded(0 := setStatusLoading (heap_unloaded 0)),
         [(''com.soundcloud~1253'', 0)])"
proof -
  have "checkAndMakeSpace [] (guid (heap_unloaded 0)) (heap_unloaded, []) = (True, heap_unloaded)"
    by (simp add: checkAndMakeSpace_def MAX_TRACKS_def)
  from addTrackAsLoading_Return [OF this] show ?thesis
    by (simp add: contains_def heap_unloaded_def track_unloaded_def)
qed

theorem pLoadSingleTrack_outcomes_witness:
  "pLoadSingleTrack (\<lambda>k. None) (\<lambda>b. None) [] 2 (full_heap, full_cache)
     = (Resolved 2, (full_heap, full_cache))
   \<and> pLoadSingleTrack (\<lambda>k. Some [1, 2, 3]) (\<lambda>b. Some [0, 1]) [] 0
       (heap_unloaded(0 := setStatusLoading (heap_unloaded 0)), [(''com.soundcloud~1253'', 0)])
     = (Rejected (AlreadyLoading ''com.soundcloud~1253''),
        (heap_unloaded(0 := setStatusLoading (heap_unloaded 0)), [(''com.soundcloud~1253'', 0)]))
   \<and> fst (pLoadSingleTrack (\<lambda>k. None) (\<lambda>b. Some [0, 1]) [] 0 (heap_unloaded, []))
     = Rejected TrackRequestError
   \<and> fst (pLoadSingleTrack (\<lambda>k. Some [1, 2, 3]) (\<lambda>b. None) [] 0 (heap_unloaded, []))
     = Rejected DecodingError
   \<and> pLoadSingleTrack (\<lambda>k. Some [1, 2, 3]) (\<lambda>b. Some [0, 1]) [] 0 (heap_unloaded, [])
     = (Resolved 0,
        ((heap_unloaded(0 := setStatusLoading (heap_unloaded 0)))
           (0 := setAudioBuffer [0, 1]
                   ((heap_unloaded(0 := setStatusLoading (heap_unloaded 0))) 0)),
         [(''com.soundcloud~1253'', 0)]))"
proof -
  let ?h1 = "heap_unloaded(0 := setStatusLoading (heap_unloaded 0))"
  let ?c1 = "[(''com.soundcloud~1253'', 0::nat)]"
  have g2: "getTrack full_cache (guid (full_heap 2)) = Some 2"
    by (simp add: getTrack_def contains_def full_cache_def full_heap_def loaded_track_def)
  have l2: "loadStatus (full_heap 2) = LOAD_SUCCESS"
    by (simp add: full_heap_def loaded_track_def)
  have a: "pLoadSingleTrack (\<lambda>k. None) (\<lambda>b. None) [] 2 (full_heap, full_cache)
     = (Resolved 2, (full_heap, full_cache))"
    using pLoadSingleTrack_outcomes [of full_cache full_heap 2 2 "\<lambda>k. None" "\<lambda>b. None" "[]"]
      g2 l2 by blast
  have g0: "getTrack ?c1 (guid (?h1 0)) = Some 0"
    by (simp add: getTrack_def contains_def heap_unloaded_def track_unloaded_def
        setStatusLoading_def)
  have l0: "loadStatus (?h1 0) = LOADING"
    by (simp add: setStatusLoading_def)
  have gd: "guid (?h1 0) = ''com.soundcloud~1253''"
    by (simp add: heap_unloaded_def track_unloaded_def setStatusLoading_def)
  have b: "pLoadSingleTrack (\<lambda>k. Some [1, 2, 3]) (\<lambda>b. Some [0, 1]) [] 0 (?h1, ?c1)
     = (Rejected (AlreadyLoading ''com.soundcloud~1253''), (?h1, ?c1))"
    using pLoadSingleTrack_outcomes [of ?c1 ?h1 0 0 "\<lambda>k. Some [1, 2, 3]" "\<lambda>b. Some [0, 1]" "[]"]
      g0 l0 unfolding gd by blast
  have nl: "\<not> cached_live heap_unloaded [] (guid (heap_unloaded 0))"
    by (simp add: cached_live_def)
  have c: "fst (pLoadSingleTrack (\<lambda>k. None) (\<lambda>b. Some [0, 1]) [] 0 (heap_unloaded, []))
     = Rejected TrackRequestError"
    using pLoadSingleTrack_outcomes [of "[]" heap_unloaded 0 _ "\<lambda>k. None" "\<lambda>b. Some [0, 1]" "[]"
        True ?h1 ?c1] nl fresh_add by simp
  have d: "fst (pLoadSingleTrack (\<lambda>k. Some [1, 2, 3]) (\<lambda>b. None) [] 0 (heap_unloaded, []))
     = Rejected DecodingError"
    using pLoadSingleTrack_outcomes [of "[]" heap_unloaded 0 _ "\<lambda>k. Some [1, 2, 3]" "\<lambda>b. None" "[]"
        True ?h1 ?c1 "[1, 2, 3]"] nl fresh_add by simp
  have e: "pLoadSingleTrack (\<lambda>k. Some [1, 2, 3]) (\<lambda>b. Some [0, 1]) [] 0 (heap_unloaded, [])
     = (Resolved 0, (?h1(0 := setAudioBuffer [0, 1] (?h1 0)), ?c1))"
    using pLoadSingleTrack_outcomes [of "[]" heap_unloaded 0 _ "\<lambda>k. Some [1, 2, 3]"
        "\<lambda>b. Some [0, 1]" "[]" True ?h1 ?c1 "[1, 2, 3]" "[0, 1]"] nl fresh_add
    by (simp del: fun_upd_apply fun_upd_upd)
  from a b c d e show ?thesis by blast
qed


section \<open>The mixer channel: its actions\<close>

lemmas channel_simps =
  channel_loaded_def channel_unloaded_def newMixerChannel_def createGainNode_def
  sourceNodeRecreate_def resetPlayAttributes_def heap_loaded_def heap_unloaded_def
  track_unloaded_def setAudioBuffer_def setStatusNotLoaded_def Let_def

lemmas action_simps =
  addActionMc_def ensureSourceNodePresent_def sourceNodeRecreate_def zeroIfBadTime_def
  isBadTime_def filterAtTimeNow_def AT_TIME_NOW_def actionPlay_def actionPlayHelper_def
  actionStop_def actionStopHelper_def actionPause_def actionPitch_def actionGainFade_def
  getPlayState_def playStates_def timeReached_def getTrackCurrentOffsetMS_def truthy_def
  addActionWithTimeMSAbs_def msToSec_def isPositive_def Let_def

lemma channel_loaded_value:
  "channel_loaded =
     \<lparr>track = 0, nodesCreated = 2,
      gainNode = Some \<lparr>gn_id = 0, gn_connected = True, gn_value = 1, gn_ramps = []\<rparr>,
      sourceNode = Some \<lparr>sn_id = 1, sn_buffer = [0, 1], sn_output = Some 0, sn_start = None,
        sn_stop = None, sn_onended = False, sn_rate_events = []\<rparr>,
      preBendPitchValue = None, isBent = False, actionsAddedCollection = [],
      playState = STOPPED, startScheduledTimeMS = None, stopScheduledTimeMS = None,
      startedAtOffsetMS = None, stoppedAtOffsetMS = None\<rparr>"
  by (simp add: channel_simps)

lemma channel_unloaded_value:
  "channel_unloaded =
     \<lparr>track = 0, nodesCreated = 1,
      gainNode = Some \<lparr>gn_id = 0, gn_connected = True, gn_value = 1, gn_ramps = []\<rparr>,
      sourceNode = None,
      preBendPitchValue = None, isBent = False, actionsAddedCollection = [],
      playState = STOPPED, startScheduledTimeMS = None, stopScheduledTimeMS = None,
      startedAtOffsetMS = None, stoppedAtOffsetMS = None\<rparr>"
  by (simp add: channel_simps)

lemma heap_loaded_0:
  "heap_loaded 0 = \<lparr>guid = ''com.soundcloud~1253'', loadStatus = LOAD_SUCCESS,
     audioBuffer = Some [0, 1], bpm = 120, title = ''first'', audioSourceKey = ''tracks/1253''\<rparr>"
  by (simp add: channel_simps)

subsection \<open>The play state query\<close>

text \<open>
  Claim C4 says that a channel in state PLAYING\_AND\_STOP\_SCHEDULED, queried once the
  clock is at or past \<open>stopScheduledTimeMS\<close>, is reported STOPPED. The source does
  not do that: the branch of \<^verbatim>\<open>_getPlayState\<close> that should detect it reads the
  property \<^verbatim>\<open>_playStates\<close>, which does not exist, so the branch is never taken. Here
  the stop was due at 1000 ms, the clock reads 2000 ms, and the state reported is still
  PLAYING\_AND\_STOP\_SCHEDULED, the channel unchanged.
\<close>

theorem getPlayState_stop_scheduled_stays:
  "stopScheduledTimeMS channel_stop_scheduled = Some 1000
   \<and> getPlayState 2000 channel_stop_scheduled
       = (PLAYING_AND_STOP_SCHEDULED, channel_stop_scheduled)"
  by (simp add: channel_stop_scheduled_def getPlayState_def playStates_def)

subsection \<open>The earliest time of an action\<close>

text \<open>
  Claim C7 says that \<^verbatim>\<open>addAction\<close> returns false when the effective time of the
  action (its time with \<^emph>\<open>now\<close> resolved, plus the base offset, minus the set offset) is
  earlier than \<open>minTimeMSAbs\<close>, as the comment of the parameter says (\<^emph>\<open>minimum time
  that action time (with base offset delta) can have\<close>). The source compares the time
  of the action before the offsets are applied. Here the action is at 100 ms, the set
  offset is 50 ms and the minimum is 80 ms: the effective time, 50 ms, is earlier than
  the minimum, and yet the action is added, scheduled at 0.05 s and logged.
\<close>

theorem addActionMc_min_time_without_offsets:
  "filterAtTimeNow 0 (getActionTimeMSAbs pitch_action) + 0 - 50 < (80::real)
   \<and> addActionMc heap_loaded 0 channel_loaded pitch_action (Some 0) (Some 50) (Some 80)
     = Return (Some True)
         (channel_loaded
            \<lparr>sourceNode := Some \<lparr>sn_id = 1, sn_buffer = [0, 1], sn_output = Some 0,
               sn_start = None, sn_stop = None, sn_onended = False,
               sn_rate_events = [(1.5, 0.05)]\<rparr>,
             actionsAddedCollection := [pitch_action\<lparr>getActionTimeMSAbs := 50\<rparr>]\<rparr>)"
  unfolding channel_loaded_value
  by (simp add: action_simps pitch_action_def play_action_def heap_loaded_0)


text \<open>
  What the source does do: once the source node is in place, an action for another
  track is rejected, and so is an action for the hosted track whose own time, with
  \<^verbatim>\<open>AT_TIME_NOW\<close> resolved, is before the minimum; neither throws nor changes the
  channel further.
\<close>

lemma addActionMc_rejects:
  assumes "ensureSourceNodePresent h mc = (True, mc0)"
  shows "getActionTrackGuid action \<noteq> guid (h (track mc0)) \<Longrightarrow>
           addActionMc h now mc action b m mn = Return (Some False) mc0"
    and "getActionTrackGuid action = guid (h (track mc0)) \<Longrightarrow>
         filterAtTimeNow now (getActionTimeMSAbs action) < zeroIfBadTime mn \<Longrightarrow>
           addActionMc h now mc action b m mn = Return (Some False) mc0"
  using assms by (auto simp: addActionMc_def Let_def)

subsection \<open>Adding an action to a channel whose track is not loaded\<close>

lemma ensure_absent:
  assumes "sourceNode mc = None" and "audioBuffer (h (track mc)) = None"
  shows "ensureSourceNodePresent h mc = (False, mc)"
  using assms
  by (cases "gainNode mc") (simp_all add: ensureSourceNodePresent_def sourceNodeRecreate_def)

lemma ensure_creates:
  assumes "sourceNode mc = None" and "gainNode mc = Some gn"
    and "audioBuffer (h (track mc)) = Some buf"
  shows "ensureSourceNodePresent h mc =
    (True, mc\<lparr>sourceNode := Some \<lparr>sn_id = nodesCreated mc, sn_buffer = buf,
                    sn_output = Some (gn_id gn), sn_start = None, sn_stop = None,
                    sn_onended = False, sn_rate_events = []\<rparr>,
               nodesCreated := nodesCreated mc + 1,
               actionsAddedCollection := []\<rparr>)"
  using assms by (simp add: ensureSourceNodePresent_def sourceNodeRecreate_def)

lemma ensure_present:
  assumes "sourceNode mc = Some sn" and "gainNode mc = Some gn"
  shows "ensureSourceNodePresent h mc = (True, mc)"
  using assms by (simp add: ensureSourceNodePresent_def sourceNodeRecreate_def)

lemma addActionMc_throws:
  assumes "sourceNode mc = None" and "audioBuffer (h (track mc)) = None"
  shows "addActionMc h now mc action b m mn = Throw TrackNotLoaded mc"
  using assms by (simp add: addActionMc_def ensure_absent)

lemma actionPlay_stopped:
  assumes "playState mc = STOPPED" and "sourceNode mc = Some sn"
  shows "returned (actionPlay now mc t off) = Some (Some True)
       \<and> playState (state_of (actionPlay now mc t off)) = STOPPED_AND_PLAY_SCHEDULED
       \<and> startScheduledTimeMS (state_of (actionPlay now mc t off))
           = Some (filterAtTimeNow now t)"
  using assms
  by (simp add: actionPlay_def actionPlayHelper_def getPlayState_def playStates_def
      isBadTime_def Let_def)

lemma addActionMc_play:
  assumes ens: "ensureSourceNodePresent h mc = (True, mc0)"
    and st: "playState mc0 = STOPPED" and sn: "sourceNode mc0 = Some sn"
    and tr: "track mc0 = track mc"
    and ty: "getActionType action = PLAY"
    and gd: "getActionTrackGuid action = guid (h (track mc))"
    and tm: "\<not> filterAtTimeNow now (getActionTimeMSAbs action) < zeroIfBadTime mn"
  shows "returned (addActionMc h now mc action b m mn) = Some (Some True)
       \<and> playState (state_of (addActionMc h now mc action b m mn))
           = STOPPED_AND_PLAY_SCHEDULED"
proof -
  let ?t = "filterAtTimeNow now (getActionTimeMSAbs action) + zeroIfBadTime b - zeroIfBadTime m"
  let ?p = "actionPlay now mc0 ?t (getActionOffsetMS action)"
  from actionPlay_stopped [OF st sn, of now ?t "getActionOffsetMS action"]
  obtain mc1 where p: "?p = Return (Some True) mc1"
    and ps: "playState mc1 = STOPPED_AND_PLAY_SCHEDULED"
    by (cases ?p) auto
  show ?thesis
    using ens tr ty gd tm p ps
    by (simp add: addActionMc_def Let_def truthy_def)
qed

subsection \<open>The gain fade\<close>

lemma ensure_keeps_gain:
  assumes "gainNode mc = Some gn"
    and "sourceNode mc \<noteq> None \<or> audioBuffer (h (track mc)) \<noteq> None"
  shows "fst (ensureSourceNodePresent h mc)
       \<and> gainNode (snd (ensureSourceNodePresent h mc)) = Some gn
       \<and> track (snd (ensureSourceNodePresent h mc)) = track mc"
  using assms
  by (auto simp: ensureSourceNodePresent_def sourceNodeRecreate_def split: option.splits)

text \<open>
  Claim C8. A GAIN\_FADE action that \<^verbatim>\<open>addAction\<close> takes up (the channel has its
  gain node and a source node is present or can be created, the action is for the
  hosted track, its time is not before the minimum, and the track's bpm is positive)
  schedules exactly two ramps on the gain node, after those already there: the first
  to the value \<open>1 - endVal\<close> at the action time, the second to \<open>endVal\<close> at the
  action time plus \<open>fadeNumBeats / trackBpm * 60\<close> seconds. The value the call
  returns is \<^verbatim>\<open>undefined\<close>, since \<^verbatim>\<open>_actionGainFade\<close> returns nothing.
\<close>

theorem addActionMc_gain_fade:
  assumes "gainNode mc = Some gn"
    and "sourceNode mc \<noteq> None \<or> audioBuffer (h (track mc)) \<noteq> None"
    and "getActionType action = GAIN_FADE"
    and "getActionTrackGuid action = guid (h (track mc))"
    and "\<not> filterAtTimeNow now (getActionTimeMSAbs action) < zeroIfBadTime mn"
    and "isPositive (bpm (h (track mc)))"
  shows "returned (addActionMc h now mc action b m mn) = Some None
    \<and> gainNode (state_of (addActionMc h now mc action b m mn)) =
        Some (gn\<lparr>gn_ramps := gn_ramps gn @
          [(1 - getEndVal action,
            (filterAtTimeNow now (getActionTimeMSAbs action) + zeroIfBadTime b - zeroIfBadTime m)
              / 1000),
           (getEndVal action,
            (filterAtTimeNow now (getActionTimeMSAbs action) + zeroIfBadTime b - zeroIfBadTime m)
              / 1000
              + getFadeNumBeats action / bpm (h (track mc)) * 60)]\<rparr>)"
proof -
  obtain ok mc0 where ens: "ensureSourceNodePresent h mc = (ok, mc0)"
    by (cases "ensureSourceNodePresent h mc")
  with ensure_keeps_gain [of mc gn h] assms(1,2)
  have ok: "ok" and g0: "gainNode mc0 = Some gn" and t0: "track mc0 = track mc"
    by simp_all
  show ?thesis
    using ens ok g0 t0 assms(3-6)
    by (simp add: addActionMc_def actionGainFade_def Let_def truthy_def)
qed

text \<open>
  Eight beats at 120 bpm last 4 seconds: a fade to 0.25 at 1 s ramps to 0.75 at 1 s and
  to 0.25 at 5 s.
\<close>

theorem addActionMc_gain_fade_witness:
  "gainNode channel_loaded
     = Some \<lparr>gn_id = 0, gn_connected = True, gn_value = 1, gn_ramps = []\<rparr>
   \<and> getFadeNumBeats fade_action = 8 \<and> bpm (heap_loaded (track channel_loaded)) = 120
   \<and> getFadeNumBeats fade_action / bpm (heap_loaded (track channel_loaded)) * 60 = 4
   \<and> returned (addActionMc heap_loaded 0 channel_loaded fade_action None None None) = Some None
   \<and> gainNode (state_of (addActionMc heap_loaded 0 channel_loaded fade_action None None None))
       = Some \<lparr>gn_id = 0, gn_connected = True, gn_value = 1,
               gn_ramps = [(0.75, 1), (0.25, 5)]\<rparr>"
proof -
  let ?gn = "\<lparr>gn_id = 0, gn_connected = True, gn_value = 1, gn_ramps = []\<rparr>"
  have a: "gainNode channel_loaded = Some ?gn" by (simp add: channel_loaded_value)
  have b: "sourceNode channel_loaded \<noteq> None
      \<or> audioBuffer (heap_loaded (track channel_loaded)) \<noteq> None"
    by (simp add: channel_loaded_value)
  have c: "getActionType fade_action = GAIN_FADE"
    by (simp add: fade_action_def)
  have d: "getActionTrackGuid fade_action = guid (heap_loaded (track channel_loaded))"
    by (simp add: fade_action_def play_action_def channel_loaded_value heap_loaded_0)
  have e: "\<not> filterAtTimeNow 0 (getActionTimeMSAbs fade_action) < zeroIfBadTime None"
    by (simp add: fade_action_def play_action_def filterAtTimeNow_def AT_TIME_NOW_def
        zeroIfBadTime_def)
  have f: "isPositive (bpm (heap_loaded (track channel_loaded)))"
    by (simp add: isPositive_def channel_loaded_value heap_loaded_0)
  have vals: "getFadeNumBeats fade_action = 8" "bpm (heap_loaded (track channel_loaded)) = 120"
    "getEndVal fade_action = 0.25"
    "filterAtTimeNow 0 (getActionTimeMSAbs fade_action) = 1000"
    "zeroIfBadTime None = 0"
    by (simp_all add: fade_action_def play_action_def channel_loaded_value heap_loaded_0
        filterAtTimeNow_def AT_TIME_NOW_def zeroIfBadTime_def)
  from addActionMc_gain_fade [of channel_loaded ?gn heap_loaded fade_action 0 None None None]
    a b c d e f
  have "returned (addActionMc heap_loaded 0 channel_loaded fade_action None None None) = Some None
    \<and> gainNode (state_of (addActionMc heap_loaded 0 channel_loaded fade_action None None None))
       = Some \<lparr>gn_id = 0, gn_connected = True, gn_value = 1,
               gn_ramps = [(0.75, 1), (0.25, 5)]\<rparr>"
    by (simp add: vals)
  with a vals show ?thesis by simp
qed


subsection \<open>Batches of actions\<close>

lemma addActionsLoop_falsy:
  "\<not> truthy allAdded \<Longrightarrow> addActionsLoop h now b m mn allAdded mc actionList = Return allAdded mc"
  by (induction actionList) simp_all

lemma addActions_Nil: "addActions h now mc [] b m mn = Return (Some True) mc"
  by (simp add: addActions_def)

lemma addActions_Cons:
  "addActions h now mc (action # actionList) b m mn =
     (case addActionMc h now mc action b m mn of
        Throw e mc1 \<Rightarrow> Throw e mc1
      | Return added mc1 \<Rightarrow>
          if truthy added then addActions h now mc1 actionList b m mn
          else Return added mc1)"
proof (cases "addActionMc h now mc action b m mn")
  case (Throw e mc1)
  then show ?thesis by (simp add: addActions_def truthy_def)
next
  case (Return added mc1)
  show ?thesis
  proof (cases "truthy added")
    case True
    then have "added = Some True" by (simp add: truthy_def)
    with Return show ?thesis by (simp add: addActions_def truthy_def)
  next
    case False
    with Return addActionsLoop_falsy [OF False, of h now b m mn mc1 actionList]
    show ?thesis by (simp add: addActions_def truthy_def)
  qed
qed

lemma addActions_true_iff_spec:
  "(addActions h now mc actionList b m mn = Return (Some True) mc')
     = (addActions_spec h now mc actionList b m mn = Return True mc')"
proof (induction actionList arbitrary: mc)
  case Nil
  then show ?case by (simp add: addActions_Nil)
next
  case (Cons action actionList)
  show ?case
  proof (cases "addActionMc h now mc action b m mn")
    case (Throw e mc1)
    then show ?thesis by (simp add: addActions_Cons)
  next
    case (Return added mc1)
    show ?thesis
    proof (cases "truthy added")
      case True
      with Return Cons.IH [of mc1] show ?thesis
        by (simp add: addActions_Cons split: result.splits)
    next
      case False
      then have "added \<noteq> Some True" by (simp add: truthy_def)
      with Return False show ?thesis
        by (simp add: addActions_Cons split: result.splits)
    qed
  qed
qed

text \<open>
  Claim C3, amended. \<^verbatim>\<open>addActions\<close> applies \<^verbatim>\<open>addAction\<close> to the elements in order
  as long as each one is accepted: on the empty list it returns true; on a list with a
  first element it applies \<^verbatim>\<open>addAction\<close> to that element and, if this returns true,
  goes on with the rest on the channel so changed, and otherwise stops and returns
  what the element returned, the later elements not being attempted (an exception
  ends the call). It returns true, with a given final channel, exactly when applying
  \<^verbatim>\<open>addAction\<close> to every element in order returns true for every one and ends in
  that channel.
\<close>

theorem addActions_stops_at_first_rejection:
  "addActions h now mc [] b m mn = Return (Some True) mc
   \<and> addActions h now mc (action # actionList) b m mn =
       (case addActionMc h now mc action b m mn of
          Throw e mc1 \<Rightarrow> Throw e mc1
        | Return added mc1 \<Rightarrow>
            if added = Some True then addActions h now mc1 actionList b m mn
            else Return added mc1)
   \<and> (addActions h now mc actions b m mn = Return (Some True) mc')
       = (addActions_spec h now mc actions b m mn = Return True mc')"
  using addActions_Nil [of h now mc b m mn]
    addActions_Cons [of h now mc action actionList b m mn, unfolded truthy_def]
    addActions_true_iff_spec [of h now mc actions b m mn mc']
  by simp

text \<open>
  Claim C3 as stated fails: an element after a rejected one is not attempted. The first
  action is for another track and is rejected; the second, a pitch change for the
  hosted track, would be accepted, as applying \<^verbatim>\<open>addAction\<close> to every element shows,
  but \<^verbatim>\<open>addActions\<close> leaves the channel as it was.
\<close>

theorem addActions_every_element_counterexample:
  "addActions heap_loaded 0 channel_loaded [other_track_action, pitch_action] None None None
     = Return (Some False) channel_loaded
   \<and> addActions_spec heap_loaded 0 channel_loaded [other_track_action, pitch_action]
       None None None
     = Return False
         (channel_loaded
            \<lparr>sourceNode := Some \<lparr>sn_id = 1, sn_buffer = [0, 1], sn_output = Some 0,
               sn_start = None, sn_stop = None, sn_onended = False,
               sn_rate_events = [(1.5, 0.1)]\<rparr>,
             actionsAddedCollection := [pitch_action]\<rparr>)"
proof -
  have first: "addActionMc heap_loaded 0 channel_loaded other_track_action None None None
      = Return (Some False) channel_loaded"
    unfolding channel_loaded_value
    by (simp add: action_simps other_track_action_def pitch_action_def play_action_def
        heap_loaded_0)
  have second: "addActionMc heap_loaded 0 channel_loaded pitch_action None None None
      = Return (Some True)
         (channel_loaded
            \<lparr>sourceNode := Some \<lparr>sn_id = 1, sn_buffer = [0, 1], sn_output = Some 0,
               sn_start = None, sn_stop = None, sn_onended = False,
               sn_rate_events = [(1.5, 0.1)]\<rparr>,
             actionsAddedCollection := [pitch_action]\<rparr>)"
    unfolding channel_loaded_value
    by (simp add: action_simps pitch_action_def play_action_def heap_loaded_0)
  show ?thesis
    by (simp add: addActions_def first second truthy_def)
qed


text \<open>The empty batch, and the batch whose first action is rejected.\<close>

theorem addActions_stops_at_first_rejection_witness:
  "addActions heap_loaded 0 channel_loaded [] None None None
     = Return (Some True) channel_loaded
   \<and> addActions heap_loaded 0 channel_loaded [other_track_action, pitch_action] None None None
     = Return (Some False) channel_loaded
   \<and> addActions_spec heap_loaded 0 channel_loaded [] None None None
     = Return True channel_loaded"
proof -
  have first: "addActionMc heap_loaded 0 channel_loaded other_track_action None None None
      = Return (Some False) channel_loaded"
    unfolding channel_loaded_value
    by (simp add: action_simps other_track_action_def pitch_action_def play_action_def
        heap_loaded_0)
  note inst = addActions_stops_at_first_rejection [of heap_loaded 0 channel_loaded None None None
      other_track_action "[pitch_action]" "[]" channel_loaded]
  from inst have a: "addActions heap_loaded 0 channel_loaded [] None None None
     = Return (Some True) channel_loaded" by blast
  from inst first
  have b: "addActions heap_loaded 0 channel_loaded [other_track_action, pitch_action]
      None None None = Return (Some False) channel_loaded" by simp
  from inst a have c: "addActions_spec heap_loaded 0 channel_loaded [] None None None
     = Return True channel_loaded" by blast
  from a b c show ?thesis by blast
qed

subsection \<open>Clearing the actions\<close>

lemma clearActions_log:
  "actionsAddedCollection (state_of (clearActions h now mc fs fg)) = []"
  by (auto simp: clearActions_def Let_def createGainNode_def getPlayState_def playStates_def
      sourceNodeRecreate_def resetPlayAttributes_def
      split: option.splits if_splits prod.splits)

lemma clearActions_gain_kept:
  "\<not> defaultVal fg False \<Longrightarrow>
     thrown (clearActions h now mc fs fg) = None
     \<and> gainNode (state_of (clearActions h now mc fs fg)) = gainNode mc"
  by (auto simp: clearActions_def Let_def getPlayState_def playStates_def
      sourceNodeRecreate_def resetPlayAttributes_def
      split: option.splits if_splits prod.splits)

lemma clearActions_gain_fresh:
  "defaultVal fg False \<Longrightarrow> gainNode mc \<noteq> None \<Longrightarrow>
     gainNode (state_of (clearActions h now mc fs fg))
       = Some \<lparr>gn_id = nodesCreated mc, gn_connected = True, gn_value = 1, gn_ramps = []\<rparr>"
  by (auto simp: clearActions_def Let_def createGainNode_def getPlayState_def playStates_def
      sourceNodeRecreate_def resetPlayAttributes_def
      split: option.splits if_splits prod.splits)

lemma clearActions_source_kept:
  "fst (getPlayState now mc) \<noteq> STOPPED \<Longrightarrow>
   fst (getPlayState now mc) \<noteq> STOPPED_AND_PLAY_SCHEDULED \<Longrightarrow>
   \<not> defaultVal fs False \<Longrightarrow>
     map_option sn_id (sourceNode (state_of (clearActions h now mc fs fg)))
       = map_option sn_id (sourceNode mc)
     \<and> map_option sn_start (sourceNode (state_of (clearActions h now mc fs fg)))
       = map_option sn_start (sourceNode mc)
     \<and> map_option sn_stop (sourceNode (state_of (clearActions h now mc fs fg)))
       = map_option sn_stop (sourceNode mc)"
  by (auto simp: clearActions_def Let_def createGainNode_def getPlayState_def playStates_def
      split: option.splits if_splits prod.splits)

lemma clearActions_source_reset:
  "fst (getPlayState now mc) = STOPPED
     \<or> fst (getPlayState now mc) = STOPPED_AND_PLAY_SCHEDULED \<or> defaultVal fs False \<Longrightarrow>
   thrown (clearActions h now mc fs fg) = None \<Longrightarrow>
   gainNode mc \<noteq> None \<Longrightarrow>
     sourceNode (state_of (clearActions h now mc fs fg))
       = map_option
           (\<lambda>buf. \<lparr>sn_id = nodesCreated mc + (if defaultVal fg False then 1 else 0),
                   sn_buffer = buf,
                   sn_output = map_option gn_id (gainNode (state_of (clearActions h now mc fs fg))),
                   sn_start = None, sn_stop = None, sn_onended = False, sn_rate_events = []\<rparr>)
           (audioBuffer (h (track mc)))
     \<and> playState (state_of (clearActions h now mc fs fg)) = STOPPED
     \<and> startScheduledTimeMS (state_of (clearActions h now mc fs fg)) = None
     \<and> stopScheduledTimeMS (state_of (clearActions h now mc fs fg)) = None
     \<and> startedAtOffsetMS (state_of (clearActions h now mc fs fg)) = None
     \<and> stoppedAtOffsetMS (state_of (clearActions h now mc fs fg)) = None"
  by (auto simp: clearActions_def Let_def createGainNode_def getPlayState_def playStates_def
      sourceNodeRecreate_def resetPlayAttributes_def
      split: option.splits if_splits prod.splits)


lemma channel_fading_value:
  "channel_fading =
     channel_loaded\<lparr>gainNode := Some \<lparr>gn_id = 0, gn_connected = True, gn_value = 1,
        gn_ramps = [(0.75, 1), (0.25, 5)]\<rparr>\<rparr>"
  unfolding channel_fading_def channel_loaded_value
  by (simp add: action_simps fade_action_def play_action_def heap_loaded_0)

text \<open>
  Claim C9, amended. Whatever the channel and the two flags, \<^verbatim>\<open>clearActions\<close> leaves
  the replay log empty. Without \<open>forceGainNodeReset\<close> it does not throw and leaves
  the gain node, with its pending ramps, as it was; with it (and a gain node to
  replace) the gain node is a new one with no ramps and gain 1. When the channel is
  neither STOPPED nor STOPPED\_AND\_PLAY\_SCHEDULED at the query and no source reset is
  forced, the source node stays the same node with its start and stop. When the
  channel is stopped in that sense or the source reset is forced, and the call
  returns, the source node is a new one if the track has a buffer and absent if not,
  and the play attributes are those of a new channel.
\<close>

theorem clearActions_effects:
  "actionsAddedCollection (state_of (clearActions h now mc fs fg)) = []
   \<and> (\<not> defaultVal fg False \<longrightarrow>
        thrown (clearActions h now mc fs fg) = None
        \<and> gainNode (state_of (clearActions h now mc fs fg)) = gainNode mc)
   \<and> (defaultVal fg False \<and> gainNode mc \<noteq> None \<longrightarrow>
        gainNode (state_of (clearActions h now mc fs fg))
          = Some \<lparr>gn_id = nodesCreated mc, gn_connected = True, gn_value = 1, gn_ramps = []\<rparr>)
   \<and> (fst (getPlayState now mc) \<noteq> STOPPED
        \<and> fst (getPlayState now mc) \<noteq> STOPPED_AND_PLAY_SCHEDULED
        \<and> \<not> defaultVal fs False \<longrightarrow>
        map_option sn_id (sourceNode (state_of (clearActions h now mc fs fg)))
          = map_option sn_id (sourceNode mc)
        \<and> map_option sn_start (sourceNode (state_of (clearActions h now mc fs fg)))
          = map_option sn_start (sourceNode mc)
        \<and> map_option sn_stop (sourceNode (state_of (clearActions h now mc fs fg)))
          = map_option sn_stop (sourceNode mc))
   \<and> ((fst (getPlayState now mc) = STOPPED
         \<or> fst (getPlayState now mc) = STOPPED_AND_PLAY_SCHEDULED \<or> defaultVal fs False)
        \<and> thrown (clearActions h now mc fs fg) = None \<and> gainNode mc \<noteq> None \<longrightarrow>
        sourceNode (state_of (clearActions h now mc fs fg))
          = map_option
              (\<lambda>buf. \<lparr>sn_id = nodesCreated mc + (if defaultVal fg False then 1 else 0),
                      sn_buffer = buf,
                      sn_output =
                        map_option gn_id (gainNode (state_of (clearActions h now mc fs fg))),
                      sn_start = None, sn_stop = None, sn_onended = False,
                      sn_rate_events = []\<rparr>)
              (audioBuffer (h (track mc)))
        \<and> playState (state_of (clearActions h now mc fs fg)) = STOPPED
        \<and> startScheduledTimeMS (state_of (clearActions h now mc fs fg)) = None
        \<and> stopScheduledTimeMS (state_of (clearActions h now mc fs fg)) = None
        \<and> startedAtOffsetMS (state_of (clearActions h now mc fs fg)) = None
        \<and> stoppedAtOffsetMS (state_of (clearActions h now mc fs fg)) = None)"
  using clearActions_log [of h now mc fs fg]
    clearActions_gain_kept [of fg h now mc fs]
    clearActions_gain_fresh [of fg mc h now fs]
    clearActions_source_kept [of now mc fs h fg]
    clearActions_source_reset [of now mc fs h fg]
  by blast

text \<open>
  Claim C9 as stated fails: without \<open>forceGainNodeReset\<close> the pending ramps of the
  gain node survive \<^verbatim>\<open>clearActions\<close> (the source resets the gain node only inside
  \<^verbatim>\<open>if (forceGainNodeReset)\<close>), also when the source reset is forced.
\<close>

theorem clearActions_gain_automation_counterexample:
  "map_option gn_ramps (gainNode channel_fading) = Some [(0.75, 1), (0.25, 5)]
   \<and> thrown (clearActions heap_loaded 0 channel_fading None None) = None
   \<and> map_option gn_ramps (gainNode (state_of (clearActions heap_loaded 0 channel_fading None None)))
       = Some [(0.75, 1), (0.25, 5)]
   \<and> map_option gn_ramps
        (gainNode (state_of (clearActions heap_loaded 0 channel_fading (Some True) (Some False))))
       = Some [(0.75, 1), (0.25, 5)]"
  unfolding channel_fading_value channel_loaded_value
  by (simp add: clearActions_def defaultVal_def getPlayState_def playStates_def
      sourceNodeRecreate_def resetPlayAttributes_def heap_loaded_0 Let_def)

text \<open>
  The fading channel cleared with and without the gain reset, and a channel whose stop
  is scheduled cleared without and with the forced source reset.
\<close>

theorem clearActions_effects_witness:
  "actionsAddedCollection (state_of (clearActions heap_loaded 0 channel_fading None (Some True))) = []
   \<and> gainNode (state_of (clearActions heap_loaded 0 channel_fading None (Some True)))
       = Some \<lparr>gn_id = 2, gn_connected = True, gn_value = 1, gn_ramps = []\<rparr>
   \<and> gainNode (state_of (clearActions heap_loaded 0 channel_fading None None))
       = gainNode channel_fading
   \<and> map_option sn_id
        (sourceNode (state_of (clearActions heap_loaded 2000 channel_stop_scheduled None None)))
       = Some 1
   \<and> map_option sn_id (sourceNode (state_of (clearActions heap_loaded 0 channel_fading None None)))
       = Some 2
   \<and> playState (state_of (clearActions heap_loaded 2000 channel_stop_scheduled (Some True) None))
       = STOPPED"
proof -
  have fading: "nodesCreated channel_fading = 2" "gainNode channel_fading \<noteq> None"
    "fst (getPlayState 0 channel_fading) = STOPPED" "track channel_fading = 0"
    unfolding channel_fading_value channel_loaded_value
    by (simp_all add: getPlayState_def playStates_def)
  have sched: "fst (getPlayState 2000 channel_stop_scheduled) = PLAYING_AND_STOP_SCHEDULED"
    "map_option sn_id (sourceNode channel_stop_scheduled) = Some 1"
    "gainNode channel_stop_scheduled \<noteq> None"
    unfolding channel_stop_scheduled_def channel_loaded_value
    by (simp_all add: getPlayState_def playStates_def)
  have dv: "defaultVal (Some True) False" "\<not> defaultVal None False"
    by (simp_all add: defaultVal_def)
  have buf: "audioBuffer (heap_loaded 0) = Some [0, 1]" by (simp add: heap_loaded_0)
  note i1 = clearActions_effects [of heap_loaded 0 channel_fading None "Some True"]
  note i2 = clearActions_effects [of heap_loaded 0 channel_fading None None]
  note i3 = clearActions_effects [of heap_loaded 2000 channel_stop_scheduled None None]
  note i4 = clearActions_effects [of heap_loaded 2000 channel_stop_scheduled "Some True" None]
  from i1 dv fading
  have a: "actionsAddedCollection
        (state_of (clearActions heap_loaded 0 channel_fading None (Some True))) = []"
    and b: "gainNode (state_of (clearActions heap_loaded 0 channel_fading None (Some True)))
       = Some \<lparr>gn_id = 2, gn_connected = True, gn_value = 1, gn_ramps = []\<rparr>"
    by simp_all
  from i2 dv have c: "gainNode (state_of (clearActions heap_loaded 0 channel_fading None None))
       = gainNode channel_fading"
    and nt: "thrown (clearActions heap_loaded 0 channel_fading None None) = None"
    by simp_all
  from i3 dv sched
  have d: "map_option sn_id
        (sourceNode (state_of (clearActions heap_loaded 2000 channel_stop_scheduled None None)))
       = Some 1"
    by simp
  from i2 dv fading nt buf
  have e: "map_option sn_id
        (sourceNode (state_of (clearActions heap_loaded 0 channel_fading None None))) = Some 2"
    by simp
  from i4 dv sched
  have f: "playState
        (state_of (clearActions heap_loaded 2000 channel_stop_scheduled (Some True) None))
       = STOPPED"
    by simp
  from a b c d e f show ?thesis by blast
qed


section \<open>The channel next to the cache: no source node without a buffer\<close>

text \<open>Channel operations keep the track and the gain node.\<close>

lemma same_base_refl [simp]: "same_base mc mc"
  by (simp add: same_base_def)

lemma same_base_trans: "same_base a b \<Longrightarrow> same_base b c \<Longrightarrow> same_base a c"
  by (auto simp: same_base_def)

lemma getPlayState_base: "same_base mc (snd (getPlayState now mc))"
  by (simp add: getPlayState_def playStates_def same_base_def Let_def)

lemma getTrackCurrentOffsetMS_base: "same_base mc (snd (getTrackCurrentOffsetMS now mc))"
  using getPlayState_base [of mc now]
  by (auto simp: getTrackCurrentOffsetMS_def split: prod.splits play_state.splits option.splits)

lemma sourceNodeRecreate_base: "same_base mc (snd (sourceNodeRecreate h mc d))"
  by (auto simp: sourceNodeRecreate_def same_base_def split: option.splits)

lemma actionPlayHelper_base: "same_base mc (state_of (actionPlayHelper mc t off))"
  by (auto simp: actionPlayHelper_def same_base_def Let_def split: option.splits)

lemma actionPlay_base: "same_base mc (state_of (actionPlay now mc t off))"
proof -
  obtain st mc1 where g: "getPlayState now mc = (st, mc1)" by (cases "getPlayState now mc")
  with getPlayState_base [of mc now] have b1: "same_base mc mc1" by simp
  have "same_base mc1 (state_of (actionPlayHelper mc1 (filterAtTimeNow now t) (zeroIfBadTime off)))"
    by (rule actionPlayHelper_base)
  with b1 have b2: "same_base mc
      (state_of (actionPlayHelper mc1 (filterAtTimeNow now t) (zeroIfBadTime off)))"
    by (rule same_base_trans)
  show ?thesis
    using g b1 b2
    by (cases st; cases "actionPlayHelper mc1 (filterAtTimeNow now t) (zeroIfBadTime off)")
      (simp_all add: actionPlay_def isBadTime_def Let_def)
qed

lemma actionPitch_base: "same_base mc (state_of (actionPitch now mc t v))"
  by (auto simp: actionPitch_def same_base_def isBadTime_def Let_def split: option.splits)

lemma actionPause_base: "same_base mc (state_of (actionPause mc t))"
  by (simp add: actionPause_def)

lemma actionGainFade_base: "same_base mc (state_of (actionGainFade mc t e f bp))"
  by (auto simp: actionGainFade_def same_base_def Let_def split: option.splits)

lemma actionStopHelper_base: "same_base mc (state_of (actionStopHelper now mc t))"
proof (cases "sourceNode mc")
  case None
  then show ?thesis by (simp add: actionStopHelper_def)
next
  case (Some sn)
  let ?mc1 = "mc\<lparr>sourceNode := Some (sn\<lparr>sn_stop := Some (msToSec t)\<rparr>),
                 stopScheduledTimeMS := Some t, playState := PLAYING_AND_STOP_SCHEDULED\<rparr>"
  have b1: "same_base mc ?mc1" by (simp add: same_base_def)
  obtain off mc2 where g: "getTrackCurrentOffsetMS now ?mc1 = (off, mc2)"
    by (cases "getTrackCurrentOffsetMS now ?mc1")
  with getTrackCurrentOffsetMS_base [of ?mc1 now] have "same_base ?mc1 mc2" by simp
  with b1 have "same_base mc mc2" by (rule same_base_trans)
  then have "same_base mc (mc2\<lparr>stoppedAtOffsetMS := map_option (\<lambda>off. off + t - now) off\<rparr>)"
    by (simp add: same_base_def)
  with Some g show ?thesis by (simp add: actionStopHelper_def Let_def)
qed

lemma actionStop_base: "same_base mc (state_of (actionStop now mc t))"
proof -
  obtain st mc1 where g: "getPlayState now mc = (st, mc1)" by (cases "getPlayState now mc")
  with getPlayState_base [of mc now] have b1: "same_base mc mc1" by simp
  have "same_base mc1 (state_of (actionStopHelper now mc1 (filterAtTimeNow now t)))"
    by (rule actionStopHelper_base)
  with b1 have b2: "same_base mc (state_of (actionStopHelper now mc1 (filterAtTimeNow now t)))"
    by (rule same_base_trans)
  show ?thesis
    using g b1 b2
    by (cases st; cases "actionStopHelper now mc1 (filterAtTimeNow now t)")
      (simp_all add: actionStop_def isBadTime_def Let_def)
qed

lemma addActionMc_base: "same_base mc (state_of (addActionMc h now mc action b m mn))"
proof -
  obtain ok mc0 where e: "ensureSourceNodePresent h mc = (ok, mc0)"
    by (cases "ensureSourceNodePresent h mc")
  with sourceNodeRecreate_base [of mc h False] have b0: "same_base mc mc0"
    by (simp add: ensureSourceNodePresent_def)
  let ?t = "filterAtTimeNow now (getActionTimeMSAbs action) + zeroIfBadTime b - zeroIfBadTime m"
  let ?d = "case getActionType action of
              PLAY \<Rightarrow> actionPlay now mc0 ?t (getActionOffsetMS action)
            | STOP \<Rightarrow> actionStop now mc0 ?t
            | PAUSE \<Rightarrow> actionPause mc0 ?t
            | PITCH \<Rightarrow> actionPitch now mc0 ?t (getPitchValueApplied action)
            | GAIN_FADE \<Rightarrow> actionGainFade mc0 ?t (getEndVal action) (getFadeNumBeats action)
                (bpm (h (track mc0)))"
  have "same_base mc0 (state_of ?d)"
    by (cases "getActionType action")
      (simp_all add: actionPlay_base actionStop_base actionPause_base actionPitch_base
        actionGainFade_base)
  with b0 have bd: "same_base mc (state_of ?d)" by (rule same_base_trans)
  then have bl: "same_base mc (state_of ?d\<lparr>actionsAddedCollection := x\<rparr>)" for x
    by (simp add: same_base_def)
  show ?thesis
  proof (cases ok)
    case False
    with e b0 show ?thesis by (simp add: addActionMc_def)
  next
    case True
    show ?thesis
    proof (cases ?d)
      case (Return v mc1)
      with e True b0 bd bl [of "addActionWithTimeMSAbs (actionsAddedCollection mc1) action ?t"]
      show ?thesis by (simp add: addActionMc_def Let_def)
    next
      case (Throw er mc1)
      with e True b0 bd show ?thesis by (simp add: addActionMc_def Let_def)
    qed
  qed
qed


lemma addActions_base: "same_base mc (state_of (addActions h now mc actionList b m mn))"
proof (induction actionList arbitrary: mc)
  case Nil
  then show ?case by (simp add: addActions_Nil)
next
  case (Cons action actionList)
  show ?case
  proof (cases "addActionMc h now mc action b m mn")
    case (Throw e mc1)
    with addActionMc_base [of mc h now action b m mn] show ?thesis
      by (simp add: addActions_Cons)
  next
    case (Return added mc1)
    with addActionMc_base [of mc h now action b m mn] have b1: "same_base mc mc1" by simp
    from b1 Cons.IH [of mc1]
    have "same_base mc (state_of (addActions h now mc1 actionList b m mn))"
      by (rule same_base_trans)
    with Return b1 show ?thesis by (simp add: addActions_Cons)
  qed
qed

lemma clearActions_base: "same_base mc (state_of (clearActions h now mc fs fg))"
  by (auto simp: clearActions_def Let_def createGainNode_def getPlayState_def playStates_def
      sourceNodeRecreate_def resetPlayAttributes_def same_base_def
      split: option.splits if_splits prod.splits)

lemma processPlaybackEnded_base: "same_base mc (processPlaybackEnded h mc)"
  by (auto simp: processPlaybackEnded_def sourceNodeRecreate_def same_base_def
      split: option.splits)

text \<open>A channel without a source node whose track has no buffer stays so.\<close>

lemma addActions_idle:
  assumes "sourceNode mc = None" and "audioBuffer (h (track mc)) = None"
  shows "state_of (addActions h now mc actionList b m mn) = mc"
proof (cases actionList)
  case Nil
  then show ?thesis by (simp add: addActions_Nil)
next
  case (Cons action rest)
  with addActionMc_throws [of mc h now action b m mn] assms show ?thesis
    by (simp add: addActions_Cons)
qed

lemma clearActions_idle:
  assumes "idle mc" and "audioBuffer (h (track mc)) = None"
  shows "idle (state_of (clearActions h now mc fs fg))"
  using assms
  by (auto simp: idle_def clearActions_def Let_def createGainNode_def getPlayState_def
      playStates_def sourceNodeRecreate_def resetPlayAttributes_def
      split: option.splits if_splits prod.splits)

lemma processPlaybackEnded_idle:
  assumes "idle mc" and "audioBuffer (h (track mc)) = None"
  shows "idle (processPlaybackEnded h mc)"
  using assms
  by (auto simp: idle_def processPlaybackEnded_def sourceNodeRecreate_def split: option.splits)

lemma getPlayState_idle: "idle mc \<Longrightarrow> snd (getPlayState now mc) = mc"
  by (simp add: idle_def getPlayState_def playStates_def)

lemma getTrackCurrentOffsetMS_idle: "idle mc \<Longrightarrow> snd (getTrackCurrentOffsetMS now mc) = mc"
  by (simp add: idle_def getTrackCurrentOffsetMS_def getPlayState_def playStates_def)

lemma chan_ok_iff:
  "chan_ok h mc = (gainNode mc \<noteq> None \<and> (audioBuffer (h (track mc)) = None \<longrightarrow> idle mc))"
  by (auto simp: chan_ok_def idle_def)

lemma chan_ok_step:
  assumes ok: "chan_ok h mc" and base: "same_base mc mc'"
    and idle: "audioBuffer (h (track mc)) = None \<Longrightarrow> idle mc \<Longrightarrow> idle mc'"
  shows "chan_ok h mc'"
  using assms by (auto simp: chan_ok_iff same_base_def)

lemma chan_ok_addActionMc:
  assumes "chan_ok h mc"
  shows "chan_ok h (state_of (addActionMc h now mc action b m mn))"
  using assms addActionMc_base
proof (rule chan_ok_step)
  assume "audioBuffer (h (track mc)) = None" "idle mc"
  then show "idle (state_of (addActionMc h now mc action b m mn))"
    using addActionMc_throws [of mc h now action b m mn] by (simp add: idle_def)
qed

lemma chan_ok_addActions:
  assumes "chan_ok h mc"
  shows "chan_ok h (state_of (addActions h now mc actionList b m mn))"
  using assms addActions_base
proof (rule chan_ok_step)
  assume "audioBuffer (h (track mc)) = None" "idle mc"
  then show "idle (state_of (addActions h now mc actionList b m mn))"
    using addActions_idle [of mc h now actionList b m mn] by (simp add: idle_def)
qed

lemma chan_ok_clearActions:
  assumes "chan_ok h mc"
  shows "chan_ok h (state_of (clearActions h now mc fs fg))"
  using assms clearActions_base
proof (rule chan_ok_step)
  assume "audioBuffer (h (track mc)) = None" "idle mc"
  then show "idle (state_of (clearActions h now mc fs fg))"
    using clearActions_idle by simp
qed

lemma chan_ok_processPlaybackEnded:
  assumes "chan_ok h mc"
  shows "chan_ok h (processPlaybackEnded h mc)"
  using assms processPlaybackEnded_base
proof (rule chan_ok_step)
  assume "audioBuffer (h (track mc)) = None" "idle mc"
  then show "idle (processPlaybackEnded h mc)"
    using processPlaybackEnded_idle by simp
qed

lemma chan_ok_getPlayState:
  assumes "chan_ok h mc"
  shows "chan_ok h (snd (getPlayState now mc))"
  using assms getPlayState_base
proof (rule chan_ok_step)
  assume "audioBuffer (h (track mc)) = None" "idle mc"
  then show "idle (snd (getPlayState now mc))" by (simp add: getPlayState_idle)
qed

lemma chan_ok_getTrackCurrentOffsetMS:
  assumes "chan_ok h mc"
  shows "chan_ok h (snd (getTrackCurrentOffsetMS now mc))"
  using assms getTrackCurrentOffsetMS_base
proof (rule chan_ok_step)
  assume "audioBuffer (h (track mc)) = None" "idle mc"
  then show "idle (snd (getTrackCurrentOffsetMS now mc))"
    by (simp add: getTrackCurrentOffsetMS_idle)
qed

lemma chan_ok_new: "chan_ok h (newMixerChannel h t n)"
  by (auto simp: chan_ok_def newMixerChannel_def createGainNode_def sourceNodeRecreate_def
      resetPlayAttributes_def Let_def split: option.splits)


text \<open>The cache never takes the buffer of a pinned track.\<close>

lemma buffer_setStatusLoading [simp]:
  "audioBuffer (setStatusLoading x) = audioBuffer x"
  by (simp add: setStatusLoading_def)

lemma buffer_setStatusLoadFailed [simp]:
  "audioBuffer (setStatusLoadFailed x) = audioBuffer x"
  by (simp add: setStatusLoadFailed_def)

lemma add_pinned:
  assumes wf: "cache_wf (h, c)" and pin: "guid (h t) \<in> set pins"
    and st: "state_of (addTrackAsLoading pins r (h, c)) = (h', c')"
  shows "audioBuffer (h' t) = audioBuffer (h t) \<and> guid (h' t) = guid (h t)"
proof -
  from addTrackAsLoading_heap [OF wf st]
  consider (same) "h' = h" | (mark) "h' = h(r := setStatusLoading (h r))"
    | (evict) re where "guid (h re) \<notin> set pins"
        "h' = h(re := setStatusNotLoaded True (h re), r := setStatusLoading (h r))"
    by blast
  then show ?thesis
  proof cases
    case same
    then show ?thesis by simp
  next
    case mark
    then show ?thesis by simp
  next
    case evict
    with pin have "re \<noteq> t" by auto
    with evict(2) show ?thesis by simp
  qed
qed

lemma load_pinned:
  assumes wf: "cache_wf (h, c)" and pin: "guid (h t) \<in> set pins"
    and st: "snd (pLoadSingleTrack getObject decodeAudioData pins r (h, c)) = (h', c')"
  shows "(audioBuffer (h t) \<noteq> None \<longrightarrow> audioBuffer (h' t) \<noteq> None) \<and> guid (h' t) = guid (h t)"
proof (cases "cached_live h c (guid (h r))")
  case True
  from pLoadSingleTrack_skip [OF this, of getObject decodeAudioData pins] st
  show ?thesis by simp
next
  case False
  note get = pLoadSingleTrack_get [OF False, of getObject decodeAudioData pins]
  show ?thesis
  proof (cases "addTrackAsLoading pins r (h, c)")
    case (Throw e s1)
    obtain h1 c1 where s1: "s1 = (h1, c1)" by (cases s1)
    with Throw have "state_of (addTrackAsLoading pins r (h, c)) = (h1, c1)" by simp
    from add_pinned [OF wf pin this] get Throw s1 st show ?thesis by simp
  next
    case (Return v s1)
    obtain h1 c1 where s1: "s1 = (h1, c1)" by (cases s1)
    with Return have "state_of (addTrackAsLoading pins r (h, c)) = (h1, c1)" by simp
    from add_pinned [OF wf pin this]
    have k: "audioBuffer (h1 t) = audioBuffer (h t)" "guid (h1 t) = guid (h t)" by simp_all
    have f: "audioBuffer ((h1(r := setStatusLoadFailed (h1 r))) t) = audioBuffer (h t)
        \<and> guid ((h1(r := setStatusLoadFailed (h1 r))) t) = guid (h t)"
      using k by auto
    have l: "(audioBuffer (h t) \<noteq> None \<longrightarrow>
          audioBuffer ((h1(r := setAudioBuffer buf (h1 r))) t) \<noteq> None)
        \<and> guid ((h1(r := setAudioBuffer buf (h1 r))) t) = guid (h t)" for buf
      using k by (auto simp: setAudioBuffer_def)
    from get Return s1 st f l show ?thesis
      by (auto split: option.splits simp del: fun_upd_apply)
  qed
qed

lemma call_state_pinned:
  assumes "cache_wf (h, c)" and "call_state (with_pin (guid (h t)) x) (h, c) = (h', c')"
  shows "(audioBuffer (h t) \<noteq> None \<longrightarrow> audioBuffer (h' t) \<noteq> None) \<and> guid (h' t) = guid (h t)"
proof (cases x)
  case (AddTrackAsLoading others r)
  with assms(2)
  have "state_of (addTrackAsLoading (guid (h t) # others) r (h, c)) = (h', c')" by simp
  with add_pinned [of h c t "guid (h t) # others" r h' c'] assms(1) show ?thesis by simp
next
  case (LoadSingleTrack getObject decodeAudioData others r)
  with assms(2)
  have "snd (pLoadSingleTrack getObject decodeAudioData (guid (h t) # others) r (h, c)) = (h', c')"
    by simp
  with load_pinned [of h c t "guid (h t) # others" getObject decodeAudioData r h' c'] assms(1)
  show ?thesis by simp
qed

lemma sys_step_inv:
  assumes "sys_inv s"
  shows "sys_inv (sys_step x s)"
proof -
  obtain h c mc where s: "s = (h, c, mc)" by (cases s)
  with assms have ci: "cache_inv (h, c)" and ok: "chan_ok h mc" by (simp_all add: sys_inv_def)
  show ?thesis
  proof (cases x)
    case (CacheCall y)
    obtain h' c' where cs: "call_state (with_pin (guid (h (track mc))) y) (h, c) = (h', c')"
      by (cases "call_state (with_pin (guid (h (track mc))) y) (h, c)")
    from ci have wf: "cache_wf (h, c)" by (simp add: cache_inv_pair)
    from call_state_inv [OF ci, of "with_pin (guid (h (track mc))) y"] cs
    have ci': "cache_inv (h', c')" by simp
    from call_state_pinned [OF wf cs] ok have "chan_ok h' mc"
      by (auto simp: chan_ok_iff)
    with ci' cs s CacheCall show ?thesis by (simp add: sys_inv_def)
  next
    case (CallAddActionMc now action b m mn)
    with s ci chan_ok_addActionMc [OF ok] show ?thesis by (simp add: sys_inv_def)
  next
    case (CallAddActions now actionList b m mn)
    with s ci chan_ok_addActions [OF ok] show ?thesis by (simp add: sys_inv_def)
  next
    case (CallClearActions now fs fg)
    with s ci chan_ok_clearActions [OF ok] show ?thesis by (simp add: sys_inv_def)
  next
    case PlaybackEnded
    with s ci chan_ok_processPlaybackEnded [OF ok] show ?thesis by (simp add: sys_inv_def)
  next
    case (QueryPlayState now)
    with s ci chan_ok_getPlayState [OF ok] show ?thesis by (simp add: sys_inv_def)
  next
    case (QueryTrackCurrentOffsetMS now)
    with s ci chan_ok_getTrackCurrentOffsetMS [OF ok] show ?thesis by (simp add: sys_inv_def)
  qed
qed

lemma sys_run_inv: "sys_inv s \<Longrightarrow> sys_inv (sys_run xs s)"
  by (induction xs arbitrary: s) (simp_all add: sys_step_inv)

lemma sys_init_inv: "sys_inv (sys_init before h0 t n)"
proof -
  obtain h c where r: "run_calls before (h0, []) = (h, c)"
    by (cases "run_calls before (h0, [])")
  have "cache_inv (run_calls before (h0, []))"
    using empty_cache_inv by (rule run_calls_inv)
  with r chan_ok_new [of h t n] show ?thesis by (simp add: sys_init_def sys_inv_def)
qed

lemma reachable_chan_ok:
  assumes "sys_run calls (sys_init before h0 t n) = (h, c, mc)"
  shows "chan_ok h mc"
  using sys_run_inv [OF sys_init_inv, of calls before h0 t n] assms
  by (simp add: sys_inv_def)


text \<open>
  Claim C5. Take any channel as the calls of this system leave it: constructed for
  its track at any moment of the cache's life, then any sequence of calls on the cache
  and the loader, of \<^verbatim>\<open>addActionMc\<close>, \<^verbatim>\<open>addActions\<close> and \<^verbatim>\<open>clearActions\<close>, of
  ended events and of state queries. If its hosted track has no decoded buffer, then
  \<^verbatim>\<open>addActionMc\<close> throws TrackNotLoaded whatever the action and the other arguments,
  leaving the channel as it was, and the channel is STOPPED. Once the track has a
  decoded buffer, the same call, a PLAY action for the hosted track whose time is not
  before the minimum (counted with or without the offsets), returns true and leaves
  the channel STOPPED\_AND\_PLAY\_SCHEDULED.
\<close>

theorem addActionMc_track_not_loaded:
  assumes "sys_run calls (sys_init before h0 t n) = (h, c, mc)"
    and "audioBuffer (h (track mc)) = None"
  shows "addActionMc h now mc action b m mn = Throw TrackNotLoaded mc
    \<and> playState mc = STOPPED
    \<and> (audioBuffer (h' (track mc)) = Some buffer
         \<and> getActionType action = PLAY
         \<and> getActionTrackGuid action = guid (h' (track mc))
         \<and> \<not> filterAtTimeNow now (getActionTimeMSAbs action) < zeroIfBadTime mn
         \<and> \<not> filterAtTimeNow now (getActionTimeMSAbs action) + zeroIfBadTime b - zeroIfBadTime m
               < zeroIfBadTime mn \<longrightarrow>
        returned (addActionMc h' now mc action b m mn) = Some (Some True)
        \<and> playState (state_of (addActionMc h' now mc action b m mn))
            = STOPPED_AND_PLAY_SCHEDULED)"
proof -
  from reachable_chan_ok [OF assms(1)] assms(2)
  have gain: "gainNode mc \<noteq> None" and none: "sourceNode mc = None"
    and stopped: "playState mc = STOPPED"
    by (simp_all add: chan_ok_def)
  have throws: "addActionMc h now mc action b m mn = Throw TrackNotLoaded mc"
    using none assms(2) by (rule addActionMc_throws)
  have later: "returned (addActionMc h' now mc action b m mn) = Some (Some True)
        \<and> playState (state_of (addActionMc h' now mc action b m mn))
            = STOPPED_AND_PLAY_SCHEDULED"
    if buf: "audioBuffer (h' (track mc)) = Some buffer"
      and ty: "getActionType action = PLAY"
      and gd: "getActionTrackGuid action = guid (h' (track mc))"
      and tm: "\<not> filterAtTimeNow now (getActionTimeMSAbs action) < zeroIfBadTime mn"
  proof -
    from gain obtain gn where gn: "gainNode mc = Some gn" by auto
    have ens: "ensureSourceNodePresent h' mc =
      (True, mc\<lparr>sourceNode := Some \<lparr>sn_id = nodesCreated mc, sn_buffer = buffer,
                      sn_output = Some (gn_id gn), sn_start = None, sn_stop = None,
                      sn_onended = False, sn_rate_events = []\<rparr>,
                 nodesCreated := nodesCreated mc + 1,
                 actionsAddedCollection := []\<rparr>)"
      using none gn buf by (rule ensure_creates)
    show ?thesis
      by (rule addActionMc_play [OF ens _ _ _ ty gd tm]) (use stopped in simp_all)
  qed
  from throws stopped later show ?thesis by blast
qed

text \<open>
  The channel built before its track was loaded, after a first attempt to play has
  failed; then the same call once the loader has stored the buffer.
\<close>

theorem addActionMc_track_not_loaded_witness:
  "sys_run [CallAddActionMc 0 play_action None None None] (sys_init [] heap_unloaded 0 0)
     = (heap_unloaded, [], channel_unloaded)
   \<and> audioBuffer (heap_unloaded (track channel_unloaded)) = None
   \<and> addActionMc heap_unloaded 0 channel_unloaded play_action None None None
       = Throw TrackNotLoaded channel_unloaded
   \<and> playState channel_unloaded = STOPPED
   \<and> audioBuffer (heap_loaded (track channel_unloaded)) = Some [0, 1]
   \<and> returned (addActionMc heap_loaded 0 channel_unloaded play_action None None None)
       = Some (Some True)
   \<and> playState (state_of (addActionMc heap_loaded 0 channel_unloaded play_action None None None))
       = STOPPED_AND_PLAY_SCHEDULED"
proof -
  have nb: "audioBuffer (heap_unloaded (track channel_unloaded)) = None"
    by (simp add: heap_unloaded_def track_unloaded_def)
  have ns: "sourceNode channel_unloaded = None" by (simp add: channel_unloaded_value)
  have init: "sys_init [] heap_unloaded 0 0 = (heap_unloaded, [], channel_unloaded)"
    by (simp add: sys_init_def channel_unloaded_def)
  have "addActionMc heap_unloaded 0 channel_unloaded play_action None None None
      = Throw TrackNotLoaded channel_unloaded"
    using ns nb by (rule addActionMc_throws)
  with init have run: "sys_run [CallAddActionMc 0 play_action None None None]
      (sys_init [] heap_unloaded 0 0) = (heap_unloaded, [], channel_unloaded)"
    by simp
  have lb: "audioBuffer (heap_loaded (track channel_unloaded)) = Some [0, 1]"
    by (simp add: channel_unloaded_value heap_loaded_0)
  have call: "getActionType play_action = PLAY
      \<and> getActionTrackGuid play_action = guid (heap_loaded (track channel_unloaded))
      \<and> \<not> filterAtTimeNow 0 (getActionTimeMSAbs play_action) < zeroIfBadTime None
      \<and> \<not> filterAtTimeNow 0 (getActionTimeMSAbs play_action) + zeroIfBadTime None
            - zeroIfBadTime None < zeroIfBadTime None"
    by (simp add: channel_unloaded_value play_action_def heap_loaded_0
        filterAtTimeNow_def AT_TIME_NOW_def zeroIfBadTime_def)
  from addActionMc_track_not_loaded [OF run nb, of 0 play_action None None None heap_loaded
      "[0, 1]"] lb call run nb
  show ?thesis by blast
qed


end
